theory Spec2Isabelle
  imports Main
begin

section \<open>Python values, dictionaries and exceptions\<close>

text \<open>
  The values the components store in their \<^verbatim>\<open>params\<close> and \<^verbatim>\<open>results\<close> dictionaries:
  strings (everything the configuration parser reads), integers (the \<^verbatim>\<open>changed\<close> flag
  is written as \<^verbatim>\<open>1\<close> or \<^verbatim>\<open>0\<close>), booleans and \<^verbatim>\<open>None\<close>.  A dictionary is a finite map
  from string keys; a read of a missing key raises \<^verbatim>\<open>KeyError\<close>.
\<close>

datatype val = VStr string | VInt int | VBool bool | VNone

type_synonym dict = "string \<rightharpoonup> val"

datatype exn =
    KeyError string
  | RuntimeError string
  | IOError string
  | TypeError string
  | ValueError string
  | AttributeError string
  | IndexError string
  | NotImplementedError string

definition getitem :: "dict \<Rightarrow> string \<Rightarrow> exn + val" where
  "getitem d k = (case d k of None \<Rightarrow> Inl (KeyError k) | Some v \<Rightarrow> Inr v)"

section \<open>Components (components.py)\<close>

datatype cls =
    ComponentBase
  | GlobalParamsComponent
  | GcamComponent
  | HydroComponent
  | HistoricalHydroComponent
  | WaterDisaggregationComponent
  | NetcdfDemoComponent

fun class_name :: "cls \<Rightarrow> string" where
  "class_name ComponentBase = ''ComponentBase''"
| "class_name GlobalParamsComponent = ''GlobalParamsComponent''"
| "class_name GcamComponent = ''GcamComponent''"
| "class_name HydroComponent = ''HydroComponent''"
| "class_name HistoricalHydroComponent = ''HistoricalHydroComponent''"
| "class_name WaterDisaggregationComponent = ''WaterDisaggregationComponent''"
| "class_name NetcdfDemoComponent = ''NetcdfDemoComponent''"

text \<open>What \<^verbatim>\<open>str(self.__class__)\<close> prints; the driver imports the classes from module
  \<^verbatim>\<open>components\<close>.\<close>

definition class_repr :: "cls \<Rightarrow> string" where
  "class_repr c = ''<class '' @ [CHR 0x27] @ ''components.'' @ class_name c @ [CHR 0x27] @ ''>''"

text \<open>
  \<^verbatim>\<open>ComponentBase.__init__\<close> creates two dictionary objects, one for \<^verbatim>\<open>self.results\<close> and one
  for \<^verbatim>\<open>self.params\<close>.  The attributes hold references: \<^verbatim>\<open>GlobalParamsComponent.__init__\<close>
  later makes \<^verbatim>\<open>self.results\<close> point at the \<^verbatim>\<open>params\<close> object.  So each component carries a
  small store with the contents of its two dictionary objects, and the attributes
  \<open>results\<close> and \<open>params\<close> name one of them.
\<close>

datatype dref = ResultsDict | ParamsDict

record component =
  cls :: cls
  status :: int
  results :: dref
  params :: dref
  dicts :: "dref \<Rightarrow> dict"
  clobber :: "bool option"

text \<open>Reading through a reference, and \<^verbatim>\<open>self.results[k] = v\<close> / \<^verbatim>\<open>self.params[k] = v\<close>.\<close>

definition results_of :: "component \<Rightarrow> dict" where
  "results_of c = dicts c (results c)"

definition params_of :: "component \<Rightarrow> dict" where
  "params_of c = dicts c (params c)"

definition set_result :: "string \<Rightarrow> val \<Rightarrow> component \<Rightarrow> component" where
  "set_result k v c = c\<lparr>dicts := (dicts c)(results c := (dicts c (results c))(k \<mapsto> v))\<rparr>"

text \<open>
  \<^verbatim>\<open>
  def __init__(self, cap_tbl):
      self.status = 0         # status indicator: 0- not yet run, 1- complete, 2- error
      self.results = {}
      self.params = {}
      self.results["changed"] = 1
      self.cap_tbl = cap_tbl
      self.condition = threading.Condition()
  \<close>
  The capability table is one object shared by all components; it is kept in the
  \<open>world\<close> below.  The attribute \<^verbatim>\<open>clobber\<close> does not exist before \<^verbatim>\<open>finalize_parsing\<close>.
\<close>

definition ComponentBase_init :: "cls \<Rightarrow> component" where
  "ComponentBase_init c =
     \<lparr>cls = c, status = 0, results = ResultsDict, params = ParamsDict,
      dicts = (\<lambda>r. Map.empty)(ResultsDict := [''changed'' \<mapsto> VInt 1]),
      clobber = None\<rparr>"

text \<open>\<^verbatim>\<open>def addparam(self, key, value): self.params[key] = value\<close>\<close>

definition addparam :: "string \<Rightarrow> val \<Rightarrow> component \<Rightarrow> component" where
  "addparam key v c = c\<lparr>dicts := (dicts c)(params c := (dicts c (params c))(key \<mapsto> v))\<rparr>"

text \<open>
  \<^verbatim>\<open>
  def finalize_parsing(self):
      self.clobber = True          # default to overwriting outputs
      if "clobber" in self.params:
          self.clobber = util.parseTFstring(self.params["clobber"])
  \<close>
  \<^verbatim>\<open>util.parseTFstring\<close> is not part of the sources at hand; it is a parameter.
\<close>

definition finalize_parsing :: "(val \<Rightarrow> bool) \<Rightarrow> component \<Rightarrow> component" where
  "finalize_parsing parseTFstring c =
     (case params_of c ''clobber'' of
        None \<Rightarrow> c\<lparr>clobber := Some True\<rparr>
      | Some v \<Rightarrow> c\<lparr>clobber := Some (parseTFstring v)\<rparr>)"

section \<open>The capability table\<close>

text \<open>
  The capability table is a Python dictionary from capability names to component
  objects.  Component objects are identified by their position in the driver's
  \<^verbatim>\<open>component_list\<close>, to which the parser appends every component right after creating it.
  Registration is the assignment \<^verbatim>\<open>cap_tbl[name] = self\<close> in a subclass constructor; lookup
  is the subscript \<^verbatim>\<open>self.cap_tbl[name]\<close>, which raises \<^verbatim>\<open>KeyError\<close> on a missing name.
\<close>

type_synonym cap_tbl = "string \<rightharpoonup> nat"

definition cap_tbl_assign :: "string \<Rightarrow> nat \<Rightarrow> cap_tbl \<Rightarrow> cap_tbl" where
  "cap_tbl_assign name self tbl = tbl(name \<mapsto> self)"

definition cap_tbl_lookup :: "cap_tbl \<Rightarrow> string \<Rightarrow> exn + nat" where
  "cap_tbl_lookup tbl name = (case tbl name of None \<Rightarrow> Inl (KeyError name) | Some a \<Rightarrow> Inr a)"

text \<open>
  The subclass constructors, after \<^verbatim>\<open>super().__init__(cap_tbl)\<close>:
  \<^verbatim>\<open>
  GlobalParamsComponent:        self.results = self.params; cap_tbl["general"] = self
  GcamComponent:                cap_tbl["gcam-core"] = self
  HydroComponent:               cap_tbl["gcam-hydro"] = self
  HistoricalHydroComponent:     cap_tbl['historical-hydro'] = self
  WaterDisaggregationComponent: cap_tbl["water-disaggregation"]=self
  NetcdfDemoComponent:          cap_tbl['netcdf-demo']=self
  \<close>
  \<^verbatim>\<open>ComponentBase\<close> itself registers nothing.
\<close>

fun subclass_init :: "cls \<Rightarrow> nat \<Rightarrow> component \<Rightarrow> cap_tbl \<Rightarrow> component \<times> cap_tbl" where
  "subclass_init ComponentBase self c tbl = (c, tbl)"
| "subclass_init GlobalParamsComponent self c tbl =
     (c\<lparr>results := params c\<rparr>, cap_tbl_assign ''general'' self tbl)"
| "subclass_init GcamComponent self c tbl = (c, cap_tbl_assign ''gcam-core'' self tbl)"
| "subclass_init HydroComponent self c tbl = (c, cap_tbl_assign ''gcam-hydro'' self tbl)"
| "subclass_init HistoricalHydroComponent self c tbl =
     (c, cap_tbl_assign ''historical-hydro'' self tbl)"
| "subclass_init WaterDisaggregationComponent self c tbl =
     (c, cap_tbl_assign ''water-disaggregation'' self tbl)"
| "subclass_init NetcdfDemoComponent self c tbl = (c, cap_tbl_assign ''netcdf-demo'' self tbl)"

definition new_component :: "cls \<Rightarrow> nat \<Rightarrow> cap_tbl \<Rightarrow> component \<times> cap_tbl" where
  "new_component c self tbl = subclass_init c self (ComponentBase_init c) tbl"

section \<open>The configuration parser (gcam\_driver.py, gcam\_parse)\<close>

text \<open>
  \<^verbatim>\<open>gcam_parse\<close> reads the file line by line.  A section header creates a component of the
  class the section names (\<^verbatim>\<open>[global]\<close> creates a \<^verbatim>\<open>GlobalParamsComponent\<close>), passing the
  one capability table, and appends it to \<^verbatim>\<open>component_list\<close>; every following
  \<^verbatim>\<open>key = value\<close> line calls \<^verbatim>\<open>addparam\<close> on that component.  After the last line,
  \<^verbatim>\<open>finalize_parsing\<close> is called on every component of the list.  The input here is the
  file after lexing: the sections in order, each with its class and its key/value lines.
\<close>

record world =
  component_list :: "component list"
  capability_table :: cap_tbl

type_synonym cfg_section = "cls \<times> (string \<times> string) list"

definition open_section :: "cls \<Rightarrow> world \<Rightarrow> world" where
  "open_section c w =
     (case new_component c (length (component_list w)) (capability_table w) of
        (obj, tbl) \<Rightarrow> \<lparr>component_list = component_list w @ [obj], capability_table = tbl\<rparr>)"

definition parse_keyval :: "world \<Rightarrow> string \<times> string \<Rightarrow> world" where
  "parse_keyval w kv =
     w\<lparr>component_list :=
         butlast (component_list w) @ [addparam (fst kv) (VStr (snd kv)) (last (component_list w))]\<rparr>"

definition parse_section :: "world \<Rightarrow> cfg_section \<Rightarrow> world" where
  "parse_section w sec = foldl parse_keyval (open_section (fst sec) w) (snd sec)"

definition gcam_parse :: "(val \<Rightarrow> bool) \<Rightarrow> cfg_section list \<Rightarrow> world" where
  "gcam_parse parseTFstring secs =
     (let w = foldl parse_section \<lparr>component_list = [], capability_table = Map.empty\<rparr> secs
      in w\<lparr>component_list := map (finalize_parsing parseTFstring) (component_list w)\<rparr>)"

section \<open>The work of a component\<close>

text \<open>
  \<^verbatim>\<open>run_component\<close> is overridden by every subclass.  Whatever a body does, towards the
  framework it can only: assign an entry of its own \<^verbatim>\<open>self.results\<close>; read its own attributes
  (\<^verbatim>\<open>self.params\<close>, \<^verbatim>\<open>self.results\<close>, \<^verbatim>\<open>self.clobber\<close>); evaluate
  \<^verbatim>\<open>self.cap_tbl[name].fetch()\<close> and go on with the dictionary it returns; return a code; or
  raise.  No body catches an exception of \<^verbatim>\<open>fetch()\<close>.  A body is therefore a tree of these
  actions; what it learns from files and subprocesses is fixed by the environment it is built
  from.  \<^verbatim>\<open>fetch()\<close> returns the dictionary object itself, not a copy; no body in
  components.py assigns to an entry of a dictionary it fetched, so a body is handed the
  content of the dictionary, and only the owner writes to it.
\<close>

datatype work =
    Return int
  | Raise exn
  | SetResult string val work
  | ReadSelf "component \<Rightarrow> work"
  | Fetch string "dict \<Rightarrow> work"

text \<open>Python's \<^verbatim>\<open>str\<close> of an integer, for the wrapper's error message.\<close>

fun str_nat :: "nat \<Rightarrow> string" where
  "str_nat n = (if n < 10 then [''0123456789'' ! n]
                else str_nat (n div 10) @ [''0123456789'' ! (n mod 10)])"

definition str_int :: "int \<Rightarrow> string" where
  "str_int i = (if i < 0 then CHR ''-'' # str_nat (nat (- i)) else str_nat (nat i))"

section \<open>Threads, locks and condition variables\<close>

text \<open>
  Every component owns a \<^verbatim>\<open>threading.Condition()\<close>, whose lock is a re-entrant lock:
  \<open>lock s b\<close> is the owner and the recursion depth of the lock of component \<open>b\<close>, and
  \<open>waiters s b\<close> is the set of threads inside \<^verbatim>\<open>wait()\<close> on it that have not been notified.
  The driver starts one thread per component; thread \<open>t\<close> runs
  \<^verbatim>\<open>run_component_wrapper\<close> of component \<open>t\<close>.  The control point of a thread:
\<close>

datatype pc =
    Unstarted
  | W_enter
  | W_run work
  | F_enter nat "dict \<Rightarrow> work"
  | F_test nat "dict \<Rightarrow> work"
  | F_wait nat "dict \<Rightarrow> work"
  | F_waiting nat nat "dict \<Rightarrow> work"
  | F_exit nat "dict \<Rightarrow> work"
  | F_check nat "dict \<Rightarrow> work"
  | W_ok
  | W_except exn
  | W_finally "exn option"
  | W_exit "exn option"
  | Done "exn option"

text \<open>The control point of the driver's main thread, in its three loops.\<close>

datatype mpc = M_run nat | M_join nat | M_check nat nat | M_done nat

datatype tid = Main | Comp nat

record state =
  comps :: "component list"
  cap :: cap_tbl
  lock :: "nat \<Rightarrow> (nat \<times> nat) option"
  waiters :: "nat \<Rightarrow> nat set"
  pcs :: "nat \<Rightarrow> pc"
  mpc :: mpc

definition init :: "world \<Rightarrow> state" where
  "init w = \<lparr>comps = component_list w, cap = capability_table w, lock = (\<lambda>b. None),
             waiters = (\<lambda>b. {}), pcs = (\<lambda>t. Unstarted), mpc = M_run 0\<rparr>"

text \<open>Acquiring a re-entrant lock blocks (\<open>None\<close>) while another thread owns it.\<close>

definition acquire :: "nat \<Rightarrow> nat \<Rightarrow> state \<Rightarrow> state option" where
  "acquire t b s =
     (case lock s b of
        None \<Rightarrow> Some (s\<lparr>lock := (lock s)(b := Some (t, 1))\<rparr>)
      | Some (ow, d) \<Rightarrow>
          if ow = t then Some (s\<lparr>lock := (lock s)(b := Some (t, Suc d))\<rparr>) else None)"

definition release :: "nat \<Rightarrow> nat \<Rightarrow> state \<Rightarrow> state" where
  "release t b s =
     (case lock s b of
        None \<Rightarrow> s
      | Some (ow, d) \<Rightarrow>
          if ow \<noteq> t then s
          else if 1 < d then s\<lparr>lock := (lock s)(b := Some (t, d - 1))\<rparr>
          else s\<lparr>lock := (lock s)(b := None)\<rparr>)"

definition set_pc :: "nat \<Rightarrow> pc \<Rightarrow> state \<Rightarrow> state" where
  "set_pc t p s = s\<lparr>pcs := (pcs s)(t := p)\<rparr>"

definition upd_comp :: "nat \<Rightarrow> (component \<Rightarrow> component) \<Rightarrow> state \<Rightarrow> state" where
  "upd_comp b f s = s\<lparr>comps := (comps s)[b := f (comps s ! b)]\<rparr>"

text \<open>
  The end of \<^verbatim>\<open>fetch\<close>, after the \<^verbatim>\<open>with\<close> block:
  \<^verbatim>\<open>
  if self.status != 1:
      raise RuntimeError("%s: wait() returned with non-success status!" % self.__class__)
  return self.results
  \<close>
\<close>

definition fetch_result :: "state \<Rightarrow> nat \<Rightarrow> exn + dict" where
  "fetch_result s b =
     (if status (comps s ! b) \<noteq> 1
      then Inl (RuntimeError (class_repr (cls (comps s ! b)) @
                  '': wait() returned with non-success status!''))
      else Inr (results_of (comps s ! b)))"

text \<open>
  One action of the body of component \<open>t\<close>.  A returned code other than \<open>0\<close> makes the
  wrapper raise
  \<^verbatim>\<open>RuntimeError(f"{self.__class__}:  run_component returned error code {str(rv)}")\<close>.
\<close>

definition work_step :: "nat \<Rightarrow> work \<Rightarrow> state \<Rightarrow> state" where
  "work_step t w s =
     (case w of
        Return rv \<Rightarrow>
          if rv \<noteq> 0
          then set_pc t (W_except (RuntimeError (class_repr (cls (comps s ! t)) @
                 '':  run_component returned error code '' @ str_int rv))) s
          else set_pc t W_ok s
      | Raise e \<Rightarrow> set_pc t (W_except e) s
      | SetResult k v w' \<Rightarrow> set_pc t (W_run w') (upd_comp t (set_result k v) s)
      | ReadSelf f \<Rightarrow> set_pc t (W_run (f (comps s ! t))) s
      | Fetch name k \<Rightarrow>
          (case cap_tbl_lookup (cap s) name of
             Inl e \<Rightarrow> set_pc t (W_except e) s
           | Inr b \<Rightarrow> set_pc t (F_enter b k) s))"

text \<open>
  One step of the thread of component \<open>t\<close>; \<open>prog t\<close> is its \<^verbatim>\<open>run_component\<close>.  A step that
  cannot be taken (the lock is owned by another thread, no notification has arrived, the
  thread is not started or has ended) leaves the state as it is.
  \<^verbatim>\<open>
  def run_component_wrapper(self):
      with self.condition:                       # W_enter
          try:
              rv = self.run_component()          # W_run
              if not rv == 0:
                  raise RuntimeError(...)
              self.status = 1                    # W_ok
          except:
              self.status = 2                    # W_except
              raise
          finally:
              self.condition.notify_all()        # W_finally
      # lock released                            # W_exit

  def fetch(self):
      with self.condition:                       # F_enter
          if self.status == 0:                   # F_test
              self.condition.wait()              # F_wait, F_waiting
      # lock released                            # F_exit
      if self.status != 1:                       # F_check
          raise RuntimeError(...)
      return self.results
  \<close>
  \<^verbatim>\<open>wait()\<close> releases the lock whatever its depth, registers the caller as a waiter and, once
  notified, acquires the lock again at the saved depth.
\<close>

definition comp_step :: "(nat \<Rightarrow> work) \<Rightarrow> nat \<Rightarrow> state \<Rightarrow> state" where
  "comp_step prog t s =
     (case pcs s t of
        Unstarted \<Rightarrow> s
      | W_enter \<Rightarrow>
          (case acquire t t s of None \<Rightarrow> s | Some s' \<Rightarrow> set_pc t (W_run (prog t)) s')
      | W_run w \<Rightarrow> work_step t w s
      | F_enter b k \<Rightarrow>
          (case acquire t b s of None \<Rightarrow> s | Some s' \<Rightarrow> set_pc t (F_test b k) s')
      | F_test b k \<Rightarrow>
          if status (comps s ! b) = 0 then set_pc t (F_wait b k) s else set_pc t (F_exit b k) s
      | F_wait b k \<Rightarrow>
          (case lock s b of
             None \<Rightarrow> s
           | Some (ow, d) \<Rightarrow>
               if ow = t
               then set_pc t (F_waiting b d k)
                      (s\<lparr>lock := (lock s)(b := None),
                         waiters := (waiters s)(b := insert t (waiters s b))\<rparr>)
               else s)
      | F_waiting b d k \<Rightarrow>
          if t \<notin> waiters s b \<and> lock s b = None
          then set_pc t (F_exit b k) (s\<lparr>lock := (lock s)(b := Some (t, d))\<rparr>)
          else s
      | F_exit b k \<Rightarrow> set_pc t (F_check b k) (release t b s)
      | F_check b k \<Rightarrow>
          (case fetch_result s b of
             Inl e \<Rightarrow> set_pc t (W_except e) s
           | Inr r \<Rightarrow> set_pc t (W_run (k r)) s)
      | W_ok \<Rightarrow> set_pc t (W_finally None) (upd_comp t (\<lambda>c. c\<lparr>status := 1\<rparr>) s)
      | W_except e \<Rightarrow> set_pc t (W_finally (Some e)) (upd_comp t (\<lambda>c. c\<lparr>status := 2\<rparr>) s)
      | W_finally eo \<Rightarrow> set_pc t (W_exit eo) (s\<lparr>waiters := (waiters s)(t := {})\<rparr>)
      | W_exit eo \<Rightarrow> set_pc t (Done eo) (release t t s)
      | Done eo \<Rightarrow> s)"

text \<open>
  The driver (gcam\_driver.py, after parsing):
  \<^verbatim>\<open>
  threads = []
  for component in component_list:               # M_run i
      threads.append(component.run())
  for thread in threads:                         # M_join i
      thread.join()
  fail = 0
  for component in component_list:               # M_check i fail
      if component.status != 1:
          fail += 1
  if fail == 0: print(...) else: print('%d components failed.' % fail)   # M_done fail
  \<close>
  \<^verbatim>\<open>component.run()\<close> creates and starts the thread of the component and returns at once;
  \<^verbatim>\<open>join()\<close> blocks until the thread has ended, however it ended.
\<close>

definition main_step :: "state \<Rightarrow> state" where
  "main_step s =
     (case mpc s of
        M_run i \<Rightarrow>
          if i < length (comps s) then s\<lparr>pcs := (pcs s)(i := W_enter), mpc := M_run (Suc i)\<rparr>
          else s\<lparr>mpc := M_join 0\<rparr>
      | M_join i \<Rightarrow>
          if i < length (comps s)
          then (case pcs s i of Done eo \<Rightarrow> s\<lparr>mpc := M_join (Suc i)\<rparr> | _ \<Rightarrow> s)
          else s\<lparr>mpc := M_check 0 0\<rparr>
      | M_check i fail \<Rightarrow>
          if i < length (comps s)
          then s\<lparr>mpc := M_check (Suc i) (if status (comps s ! i) \<noteq> 1 then fail + 1 else fail)\<rparr>
          else s\<lparr>mpc := M_done fail\<rparr>
      | M_done fail \<Rightarrow> s)"

fun step :: "(nat \<Rightarrow> work) \<Rightarrow> state \<Rightarrow> tid \<Rightarrow> state" where
  "step prog s Main = main_step s"
| "step prog s (Comp t) = comp_step prog t s"

text \<open>An execution is a schedule: the list of the threads that take the next step.\<close>

definition run :: "(nat \<Rightarrow> work) \<Rightarrow> tid list \<Rightarrow> state \<Rightarrow> state" where
  "run prog sched s = foldl (step prog) s sched"

section \<open>Auxiliary notions for the statements\<close>

text \<open>The capability name a class registers in its constructor (none for the base class).\<close>

fun capability :: "cls \<Rightarrow> string option" where
  "capability ComponentBase = None"
| "capability GlobalParamsComponent = Some ''general''"
| "capability GcamComponent = Some ''gcam-core''"
| "capability HydroComponent = Some ''gcam-hydro''"
| "capability HistoricalHydroComponent = Some ''historical-hydro''"
| "capability WaterDisaggregationComponent = Some ''water-disaggregation''"
| "capability NetcdfDemoComponent = Some ''netcdf-demo''"

text \<open>The world after the parser's loop over the lines, before \<^verbatim>\<open>finalize_parsing\<close>.\<close>

definition parsed :: "cfg_section list \<Rightarrow> world" where
  "parsed secs = foldl parse_section \<lparr>component_list = [], capability_table = Map.empty\<rparr> secs"

section \<open>Invariants of the executions\<close>

text \<open>
  What the status of a component is at each control point of its thread; whether the thread
  has passed \<^verbatim>\<open>notify_all\<close>; how many times it holds the lock of component \<open>b\<close>; and the
  component whose \<^verbatim>\<open>fetch\<close> it is executing.
\<close>

fun pc_status :: "pc \<Rightarrow> int" where
  "pc_status (W_finally None) = 1"
| "pc_status (W_exit None) = 1"
| "pc_status (Done None) = 1"
| "pc_status (W_finally (Some e)) = 2"
| "pc_status (W_exit (Some e)) = 2"
| "pc_status (Done (Some e)) = 2"
| "pc_status p = 0"

fun notified_pc :: "pc \<Rightarrow> bool" where
  "notified_pc (W_exit eo) = True"
| "notified_pc (Done eo) = True"
| "notified_pc p = False"

fun held :: "nat \<Rightarrow> pc \<Rightarrow> nat \<Rightarrow> nat" where
  "held t Unstarted b = 0"
| "held t W_enter b = 0"
| "held t (Done eo) b = 0"
| "held t (F_test c k) b = (if b = t then 1 else 0) + (if b = c then 1 else 0)"
| "held t (F_wait c k) b = (if b = t then 1 else 0) + (if b = c then 1 else 0)"
| "held t (F_exit c k) b = (if b = t then 1 else 0) + (if b = c then 1 else 0)"
| "held t (F_waiting c d k) b = (if b = t \<and> c \<noteq> t then 1 else 0)"
| "held t p b = (if b = t then 1 else 0)"

fun fetching :: "pc \<Rightarrow> nat option" where
  "fetching (F_enter b k) = Some b"
| "fetching (F_test b k) = Some b"
| "fetching (F_wait b k) = Some b"
| "fetching (F_waiting b d k) = Some b"
| "fetching (F_exit b k) = Some b"
| "fetching (F_check b k) = Some b"
| "fetching p = None"

definition lock_inv :: "state \<Rightarrow> bool" where
  "lock_inv s = (\<forall>b t d.
       (lock s b = Some (t, d) \<longrightarrow> d = held t (pcs s t) b \<and> 0 < d) \<and>
       (0 < held t (pcs s t) b \<longrightarrow> lock s b = Some (t, held t (pcs s t) b)))"

definition wait_inv :: "state \<Rightarrow> bool" where
  "wait_inv s = (\<forall>t b.
      (t \<in> waiters s b \<longrightarrow> (\<exists>d k. pcs s t = F_waiting b d k) \<and> \<not> notified_pc (pcs s b)) \<and>
      (\<forall>d k. pcs s t = F_waiting b d k \<longrightarrow>
          d = (if b = t then 2 else 1) \<and> (t \<notin> waiters s b \<longrightarrow> notified_pc (pcs s b))))"

definition fetch_inv :: "state \<Rightarrow> bool" where
  "fetch_inv s = (\<forall>t b k.
      (fetching (pcs s t) = Some b \<longrightarrow> b < length (comps s)) \<and>
      (pcs s t = F_wait b k \<longrightarrow> pc_status (pcs s b) = 0) \<and>
      (pcs s t = F_exit b k \<or> pcs s t = F_check b k \<longrightarrow> pc_status (pcs s b) \<noteq> 0))"

definition status_inv :: "state \<Rightarrow> bool" where
  "status_inv s = (\<forall>t. (t < length (comps s) \<longrightarrow> status (comps s ! t) = pc_status (pcs s t)) \<and>
                        (length (comps s) \<le> t \<longrightarrow> pcs s t = Unstarted))"

definition main_inv :: "state \<Rightarrow> bool" where
  "main_inv s = (\<forall>i t. mpc s = M_run i \<longrightarrow> i \<le> t \<longrightarrow> pcs s t = Unstarted)"

definition cap_inv :: "state \<Rightarrow> bool" where
  "cap_inv s = (\<forall>name b. cap s name = Some b \<longrightarrow> b < length (comps s))"

definition inv :: "state \<Rightarrow> bool" where
  "inv s = (lock_inv s \<and> wait_inv s \<and> fetch_inv s \<and> status_inv s \<and> main_inv s \<and> cap_inv s)"

text \<open>
  \<open>finished\<close>: the body \<^verbatim>\<open>run_component\<close> has no statement left to execute (it is returning or
  raising, or the wrapper is past it).  \<open>after_ok\<close>: the body has returned 0.
\<close>

fun finished :: "pc \<Rightarrow> bool" where
  "finished (W_run (Return rv)) = True"
| "finished (W_run (Raise e)) = True"
| "finished W_ok = True"
| "finished (W_except e) = True"
| "finished (W_finally eo) = True"
| "finished (W_exit eo) = True"
| "finished (Done eo) = True"
| "finished p = False"

fun after_ok :: "pc \<Rightarrow> bool" where
  "after_ok W_ok = True"
| "after_ok (W_finally None) = True"
| "after_ok (W_exit None) = True"
| "after_ok (Done None) = True"
| "after_ok p = False"

text \<open>
  Once the body has no statement left, the wrapper has at most four steps to its end (the
  test of the code or the entry into the handler, the assignment of the status,
  \<^verbatim>\<open>notify_all\<close>, the release of the lock); \<open>final_status\<close> is the status it will assign.
\<close>

fun wrapper_steps :: "pc \<Rightarrow> nat" where
  "wrapper_steps (W_run (Return rv)) = 4"
| "wrapper_steps (W_run (Raise e)) = 4"
| "wrapper_steps W_ok = 3"
| "wrapper_steps (W_except e) = 3"
| "wrapper_steps (W_finally eo) = 2"
| "wrapper_steps (W_exit eo) = 1"
| "wrapper_steps p = 0"

fun final_status :: "pc \<Rightarrow> int" where
  "final_status (W_run (Return rv)) = (if rv = 0 then 1 else 2)"
| "final_status (W_run (Raise e)) = 2"
| "final_status W_ok = 1"
| "final_status (W_except e) = 2"
| "final_status p = pc_status p"

section \<open>A small configuration for concrete executions\<close>

text \<open>
  Two components: component 0 provides \<^verbatim>\<open>gcam-core\<close>, writes one result entry and returns 0;
  component 1 fetches \<^verbatim>\<open>gcam-core\<close> and copies the entry.  In \<open>sched_wait\<close> the driver starts
  both threads, the consumer runs first and ends inside \<^verbatim>\<open>wait()\<close>, then the producer runs up to
  its \<^verbatim>\<open>return 0\<close>; \<open>sched_notify\<close> lets the producer finish and the consumer wake up.
\<close>

definition producer :: work where
  "producer = SetResult ''dbxml'' (VStr ''/out/db'') (Return 0)"

definition consumer_k :: "dict \<Rightarrow> work" where
  "consumer_k d = (case d ''dbxml'' of None \<Rightarrow> Raise (KeyError ''dbxml'')
                   | Some v \<Rightarrow> SetResult ''seen'' v (Return 0))"

definition consumer :: work where
  "consumer = Fetch ''gcam-core'' consumer_k"

definition demo_prog :: "nat \<Rightarrow> work" where
  "demo_prog t = (if t = 0 then producer else consumer)"

definition demo_world :: world where
  "demo_world = gcam_parse (\<lambda>v. True) [(GcamComponent, []), (WaterDisaggregationComponent, [])]"

definition sched_wait :: "tid list" where
  "sched_wait = [Main, Main, Main, Comp 1, Comp 1, Comp 1, Comp 1, Comp 1, Comp 0, Comp 0]"

definition sched_notify :: "tid list" where
  "sched_notify = [Comp 0, Comp 0, Comp 0, Comp 0, Comp 1, Comp 1]"

text \<open>
  Two failing producers for the same configuration: one whose body raises, one whose body
  returns the code 3.  In \<open>sched_fail\<close> the producer runs to its end before the consumer
  fetches.
\<close>

definition fail_raise :: "nat \<Rightarrow> work" where
  "fail_raise t = (if t = 0 then Raise (IOError ''GcamComponent: File /g/gcam.exe does not exist!'')
                   else consumer)"

definition fail_code :: "nat \<Rightarrow> work" where
  "fail_code t = (if t = 0 then Return 3 else consumer)"

definition sched_fail :: "tid list" where
  "sched_fail = [Main, Main, Main, Comp 0, Comp 0, Comp 0, Comp 0, Comp 0, Comp 0,
                 Comp 1, Comp 1, Comp 1, Comp 1, Comp 1]"

section \<open>What the driver knows at each of its control points\<close>

text \<open>
  \<open>count_failed\<close> is the number the driver's last loop computes.  \<open>join_inv\<close>: while the
  driver starts threads, the ones before its index are started; while it joins, all are
  started and the ones before its index have ended; in the counting loop all have ended and
  the counter is the count over the components before its index.
\<close>

fun is_done :: "pc \<Rightarrow> bool" where
  "is_done (Done eo) = True"
| "is_done p = False"

definition count_failed :: "component list \<Rightarrow> nat" where
  "count_failed cs = length (filter (\<lambda>c. status c \<noteq> 1) cs)"

definition join_inv :: "state \<Rightarrow> bool" where
  "join_inv s =
     (case mpc s of
        M_run i \<Rightarrow> i \<le> length (comps s) \<and> (\<forall>t<i. pcs s t \<noteq> Unstarted)
      | M_join i \<Rightarrow> i \<le> length (comps s) \<and> (\<forall>t<length (comps s). pcs s t \<noteq> Unstarted) \<and>
                    (\<forall>t<i. is_done (pcs s t))
      | M_check i fail \<Rightarrow> i \<le> length (comps s) \<and> (\<forall>t<length (comps s). is_done (pcs s t)) \<and>
                    fail = count_failed (take i (comps s))
      | M_done fail \<Rightarrow> (\<forall>t<length (comps s). is_done (pcs s t)) \<and>
                    fail = count_failed (comps s))"

definition sched_fail_done :: "tid list" where
  "sched_fail_done = sched_fail @ [Comp 1, Comp 1, Comp 1, Comp 1]"

section \<open>The end of a fetch\<close>

text \<open>
  \<open>fetch_end r k\<close> is where a caller with continuation \<open>k\<close> goes when its \<^verbatim>\<open>fetch\<close> ends with
  \<open>r\<close>: into the wrapper's handler if \<^verbatim>\<open>fetch\<close> raised, on with the returned map otherwise.
  \<open>fetch_outcome r p\<close> is that control point for a caller that is at \<open>p\<close>, anywhere inside
  \<^verbatim>\<open>fetch\<close>.
\<close>

fun fetch_end :: "exn + dict \<Rightarrow> (dict \<Rightarrow> work) \<Rightarrow> pc" where
  "fetch_end (Inl e) k = W_except e"
| "fetch_end (Inr r) k = W_run (k r)"






section \<open>The bodies of the components\<close>

text \<open>
  What a body learns from outside the program is collected in an environment: the helpers
  of the module \<^verbatim>\<open>util\<close>, which is not among the sources at hand (\<^verbatim>\<open>util.abspath(path, base)\<close>,
  \<^verbatim>\<open>util.allexist(files)\<close> before and after the child process has run), the functions of
  \<^verbatim>\<open>os\<close> and \<^verbatim>\<open>os.path\<close>, the two values the regular expressions of \<^verbatim>\<open>GcamComponent\<close> find in
  the GCAM configuration file (the first \<^verbatim>\<open>xmldb-location\<close>, and the first \<^verbatim>\<open>write-xml-db\<close>
  after it), the exit code of a child process (or the error of starting it), Python's
  \<^verbatim>\<open>int\<close> of a string, the error (if any) of \<^verbatim>\<open>os.unlink\<close> and of \<^verbatim>\<open>util.mkdir_if_noexist\<close>, and
  the bodies of the three classes that are not modelled here.  A file that exists can be opened.
  The statement of \<^verbatim>\<open>HydroComponent.run_component\<close> that should build the argument list of its
  child process (lines 628 to 630 of components.py) is not well-formed Python, so the source
  does not say what the list is; it is the parameter \<open>hydro_arglist\<close>, a function of the names
  that occur in that statement.
\<close>

record env =
  abspath :: "string \<Rightarrow> string option \<Rightarrow> string"
  getcwd :: string
  path_exists :: "string \<Rightarrow> bool"
  dirname :: "string \<Rightarrow> string"
  path_join :: "string \<Rightarrow> string \<Rightarrow> string"
  allexist :: "string list \<Rightarrow> bool"
  allexist_after :: "string list \<Rightarrow> bool"
  cfg_dbxml :: "string \<Rightarrow> string option"
  cfg_write_db :: "string \<Rightarrow> string option"
  subprocess :: "string list \<Rightarrow> val option \<Rightarrow> exn + int"
  py_int :: "string \<Rightarrow> int option"
  unlink :: "string \<Rightarrow> exn option"
  mkdir_if_noexist :: "string \<Rightarrow> exn option"
  hydro_arglist :: "string list \<Rightarrow> string list"
  other_body :: "cls \<Rightarrow> work"

text \<open>
  The parser stores only strings in \<^verbatim>\<open>params\<close>.  A value that is not a string, where a path or
  a name is needed, is answered with \<^verbatim>\<open>TypeError\<close> at the place where it is read.
  \<open>param c key\<close> is \<^verbatim>\<open>self.params[key]\<close>; \<open>result_item\<close> and \<open>result_item_default\<close> are
  \<^verbatim>\<open>self.results[key]\<close> and its guarded form \<^verbatim>\<open>self.results[key] if key in self.results else
  dflt\<close>; \<open>get_clobber\<close> reads the attribute \<^verbatim>\<open>self.clobber\<close>.
\<close>

definition as_str :: "string \<Rightarrow> val \<Rightarrow> (string \<Rightarrow> work) \<Rightarrow> work" where
  "as_str what v k = (case v of VStr s \<Rightarrow> k s | _ \<Rightarrow> Raise (TypeError what))"

definition param :: "component \<Rightarrow> string \<Rightarrow> (string \<Rightarrow> work) \<Rightarrow> work" where
  "param c key k =
     (case getitem (params_of c) key of Inl e \<Rightarrow> Raise e | Inr v \<Rightarrow> as_str key v k)"

definition result_item :: "component \<Rightarrow> string \<Rightarrow> (string \<Rightarrow> work) \<Rightarrow> work" where
  "result_item c key k =
     (case getitem (results_of c) key of Inl e \<Rightarrow> Raise e | Inr v \<Rightarrow> as_str key v k)"

definition result_item_default ::
  "component \<Rightarrow> string \<Rightarrow> string \<Rightarrow> (string \<Rightarrow> work) \<Rightarrow> work" where
  "result_item_default c key dflt k =
     (case results_of c key of None \<Rightarrow> k dflt | Some v \<Rightarrow> as_str key v k)"

definition get_clobber :: "component \<Rightarrow> (bool \<Rightarrow> work) \<Rightarrow> work" where
  "get_clobber c k = (case clobber c of None \<Rightarrow> Raise (AttributeError ''clobber'') | Some b \<Rightarrow> k b)"

text \<open>The paths a component has recorded in its results under the given keys.\<close>

definition recorded :: "component \<Rightarrow> string list \<Rightarrow> string list" where
  "recorded c keys =
     List.map_filter (\<lambda>k. case results_of c k of Some (VStr p) \<Rightarrow> Some p | _ \<Rightarrow> None) keys"

definition str_val :: "val \<Rightarrow> string" where
  "str_val v = (case v of VStr s \<Rightarrow> s | VInt n \<Rightarrow> str_int n
                | VBool b \<Rightarrow> (if b then ''True'' else ''False'') | VNone \<Rightarrow> ''None'')"

definition int_param :: "env \<Rightarrow> component \<Rightarrow> string \<Rightarrow> int \<Rightarrow> (int \<Rightarrow> work) \<Rightarrow> work" where
  "int_param env c key dflt k =
     (case params_of c key of
        None \<Rightarrow> k dflt
      | Some (VStr s) \<Rightarrow> (case py_int env s of None \<Rightarrow> Raise (ValueError s) | Some n \<Rightarrow> k n)
      | Some (VInt n) \<Rightarrow> k n
      | Some (VBool b) \<Rightarrow> k (if b then 1 else 0)
      | Some VNone \<Rightarrow> Raise (TypeError key))"

definition add_slash :: "string \<Rightarrow> (string \<Rightarrow> work) \<Rightarrow> work" where
  "add_slash d k =
     (if d = [] then Raise (IndexError ''string index out of range'')
      else if last d \<noteq> CHR ''/'' then k (d @ ''/'') else k d)"

definition set_results :: "(string \<times> string) list \<Rightarrow> work \<Rightarrow> work" where
  "set_results kvs w = foldr (\<lambda>kv. SetResult (fst kv) (VStr (snd kv))) kvs w"

text \<open>
  A body run on its own, given what each \<^verbatim>\<open>self.cap_tbl[name].fetch()\<close> answers: the component
  it leaves, and the code it returns or the exception it raises.
\<close>

primrec exec :: "work \<Rightarrow> (string \<Rightarrow> exn + dict) \<Rightarrow> component \<Rightarrow> component \<times> (exn + int)" where
  "exec (Return rv) f c = (c, Inr rv)"
| "exec (Raise e) f c = (c, Inl e)"
| "exec (SetResult k v w) f c = exec w f (set_result k v c)"
| "exec (ReadSelf g) f c = exec (g c) f c"
| "exec (Fetch name k) f c = (case f name of Inl e \<Rightarrow> (c, Inl e) | Inr d \<Rightarrow> exec (k d) f c)"

text \<open>
  \<^verbatim>\<open>
  class GlobalParamsComponent:
      def run_component(self):
          self.results['ModelInterface'] = util.abspath(self.results['ModelInterface'])
          self.results['DBXMLlib'] = util.abspath(self.results['DBXMLlib'])
          if 'inputdir' in self.results:
              inputdir = self.results['inputdir']
          else:
              inputdir = './input-data'
          self.results['inputdir'] = util.abspath(inputdir, os.getcwd())
          if 'rgnconfig' in self.results:
              rgnconfig = self.results['rgnconfig']
          else:
              rgnconfig = 'rgn14'
          self.results['rgnconfig'] = util.abspath(rgnconfig, self.results['inputdir'])
          return 0
  \<close>
\<close>

definition GlobalParams_run :: "env \<Rightarrow> work" where
  "GlobalParams_run env =
     ReadSelf (\<lambda>c. result_item c ''ModelInterface'' (\<lambda>mi.
     SetResult ''ModelInterface'' (VStr (abspath env mi None))
    (ReadSelf (\<lambda>c. result_item c ''DBXMLlib'' (\<lambda>db.
     SetResult ''DBXMLlib'' (VStr (abspath env db None))
    (ReadSelf (\<lambda>c. result_item_default c ''inputdir'' ''./input-data'' (\<lambda>inputdir.
     SetResult ''inputdir'' (VStr (abspath env inputdir (Some (getcwd env))))
    (ReadSelf (\<lambda>c. result_item_default c ''rgnconfig'' ''rgn14'' (\<lambda>rgnconfig.
     result_item c ''inputdir'' (\<lambda>base.
     SetResult ''rgnconfig'' (VStr (abspath env rgnconfig (Some base)))
    (Return 0)))))))))))))"

text \<open>
  \<^verbatim>\<open>GcamComponent.run_component\<close>: read \<^verbatim>\<open>exe\<close>, \<^verbatim>\<open>config\<close>, \<^verbatim>\<open>logconfig\<close> (and the optional
  \<^verbatim>\<open>logfile\<close>); raise \<^verbatim>\<open>IOError\<close> if one of the three files does not exist; find the
  \<^verbatim>\<open>xmldb-location\<close> in the configuration file and join it to the directory of \<^verbatim>\<open>exe\<close>
  (\<^verbatim>\<open>os.path.join\<close> raises \<^verbatim>\<open>TypeError\<close> when no line matched); then
  \<^verbatim>\<open>
  self.results["dbxml"] = dbxmlfile
  if os.path.exists(dbxmlfile):
      if not self.clobber:
          self.results["changed"] = 0
          return 0
      else:
          os.unlink(dbxmlfile)
  \<close>
  and, in \<open>Gcam_call\<close>, raise \<^verbatim>\<open>RuntimeError\<close> if the first \<^verbatim>\<open>write-xml-db\<close> value is not
  \<^verbatim>\<open>"1"\<close>, else return the exit code of \<^verbatim>\<open>subprocess.call([exe, '-C'+cfg, '-L'+logcfg])\<close>.
\<close>

definition Gcam_call :: "env \<Rightarrow> string \<Rightarrow> string \<Rightarrow> string \<Rightarrow> val option \<Rightarrow> work" where
  "Gcam_call env exe cfg logcfg logfile =
     (case cfg_write_db env cfg of
        Some v \<Rightarrow>
          if v \<noteq> ''1''
          then Raise (RuntimeError (''GcamComponent: '' @
                 ''Config file has dbxml input turned off.  Running GCAM would be futile.''))
          else (case subprocess env [exe, ''-C'' @ cfg, ''-L'' @ logcfg] logfile of
                  Inl e \<Rightarrow> Raise e | Inr rc \<Rightarrow> Return rc)
      | None \<Rightarrow>
          (case subprocess env [exe, ''-C'' @ cfg, ''-L'' @ logcfg] logfile of
             Inl e \<Rightarrow> Raise e | Inr rc \<Rightarrow> Return rc))"

definition Gcam_run :: "env \<Rightarrow> work" where
  "Gcam_run env =
     ReadSelf (\<lambda>c.
       param c ''exe'' (\<lambda>exe. param c ''config'' (\<lambda>cfg. param c ''logconfig'' (\<lambda>logcfg.
       if \<not> path_exists env exe
       then Raise (IOError (''GcamComponent: '' @ ''File '' @ exe @ '' does not exist!''))
       else if \<not> path_exists env cfg
       then Raise (IOError (''GcamComponent: '' @ ''File '' @ cfg @ '' does not exist!''))
       else if \<not> path_exists env logcfg
       then Raise (IOError (''GcamComponent: '' @ ''File '' @ logcfg @ '' does not exist!''))
       else (case cfg_dbxml env cfg of
               None \<Rightarrow> Raise (TypeError ''join'')
             | Some rel \<Rightarrow>
                 SetResult ''dbxml'' (VStr (path_join env (dirname env exe) rel))
                   (if path_exists env (path_join env (dirname env exe) rel)
                    then ReadSelf (\<lambda>c'. get_clobber c' (\<lambda>cl.
                           if \<not> cl then SetResult ''changed'' (VInt 0) (Return 0)
                           else (case unlink env (path_join env (dirname env exe) rel) of
                                   Some e \<Rightarrow> Raise e
                                 | None \<Rightarrow> Gcam_call env exe cfg logcfg (params_of c ''logfile''))))
                    else Gcam_call env exe cfg logcfg (params_of c ''logfile'')))))))"

text \<open>
  \<^verbatim>\<open>HydroComponent.run_component\<close>, in the order of the source: the parameters; the initial
  channel storage, fetched from \<^verbatim>\<open>historical-hydro\<close> if that capability is in the table
  (\<open>Hydro_hist\<close>); a \<^verbatim>\<open>/\<close> appended to the two directories (\<^verbatim>\<open>inputdir[-1]\<close> raises \<^verbatim>\<open>IndexError\<close>
  on an empty string); \<^verbatim>\<open>IOError\<close> if one of the three input files is missing; the eleven
  result entries and \<^verbatim>\<open>runid\<close> (\<open>hydro_outfiles\<close>, in the order of the assignments, which is also
  the order of \<^verbatim>\<open>alloutfiles\<close>, whose keys are \<open>hydro_outkeys\<close>); then
  \<^verbatim>\<open>
  if not self.clobber and util.allexist(alloutfiles):
      self.results["changed"] = 0
      return 0
  genparams = self.cap_tbl['general'].fetch()
  gridrgn = util.abspath('grid2rgn_nonag.csv', genparams['rgnconfig'])
  \<close>
  and the run of the child process (\<open>Hydro_matlab\<close>): its exit code if all output files exist
  afterwards, else 1.  The argument list of the child is \<open>hydro_arglist\<close> of the names that
  occur in the statement meant to build it.
\<close>

definition Hydro_hist :: "env \<Rightarrow> cap_tbl \<Rightarrow> component \<Rightarrow> (val \<Rightarrow> work) \<Rightarrow> work" where
  "Hydro_hist env tbl c k =
     (if tbl ''historical-hydro'' \<noteq> None
      then Fetch ''historical-hydro'' (\<lambda>h.
             case getitem h ''chstorfile'' of Inl e \<Rightarrow> Raise e | Inr initstorage \<Rightarrow>
            (case getitem h ''foutfile'' of Inl e \<Rightarrow> Raise e | Inr hf \<Rightarrow>
               SetResult ''hist-fout'' hf
                 (case getitem h ''qoutfile'' of Inl e \<Rightarrow> Raise e | Inr hq \<Rightarrow>
                    SetResult ''hist-qout'' hq (k initstorage))))
      else param c ''init-storage-file'' (\<lambda>isf.
             SetResult ''hist-fout'' (VStr ''/dev/null'')
               (SetResult ''hist-qout'' (VStr ''/dev/null'')
                  (k (VStr (abspath env isf None))))))"

definition hydro_outfiles :: "string \<Rightarrow> string \<Rightarrow> (string \<times> string) list" where
  "hydro_outfiles outputdir tag =
     [(''qoutfile'', outputdir @ ''Avg_Runoff_235_'' @ tag @ ''.mat''),
      (''foutfile'', outputdir @ ''Avg_ChFlow_235_'' @ tag @ ''.mat''),
      (''cqfile'', outputdir @ ''Avg_Runoff_235_'' @ tag @ ''.dat''),
      (''cflxfile'', outputdir @ ''Avg_ChFlow_235_'' @ tag @ ''.dat''),
      (''basinqfile'', outputdir @ ''basin_runoff_235_'' @ tag @ ''.mat''),
      (''cbasinqfile'', outputdir @ ''basin_runoff_235_'' @ tag @ ''.dat''),
      (''rgnqfile'', outputdir @ ''rgn_runoff_235_'' @ tag @ ''.mat''),
      (''crgnqfile'', outputdir @ ''rgn_runoff_235_'' @ tag @ ''.dat''),
      (''basinqtbl'', outputdir @ ''basin_runoff_235_'' @ tag @ ''.csv''),
      (''rgnqtbl'', outputdir @ ''rgn_runoff_235_'' @ tag @ ''.csv''),
      (''petoutfile'', outputdir @ ''Avg_PET_235_'' @ tag @ ''.mat'')]"

definition hydro_outkeys :: "string list" where
  "hydro_outkeys = map fst (hydro_outfiles [] [])"

definition Hydro_matlab ::
  "env \<Rightarrow> string list \<Rightarrow> string \<Rightarrow> string list \<Rightarrow> val \<Rightarrow> int \<Rightarrow> work" where
  "Hydro_matlab env inputs logfile outs initstorage startmonth =
     Fetch ''general'' (\<lambda>genparams.
       case getitem genparams ''rgnconfig'' of Inl e \<Rightarrow> Raise e | Inr rc \<Rightarrow>
         as_str ''rgnconfig'' rc (\<lambda>rgnconfig.
           case subprocess env
                  (hydro_arglist env
                     (inputs @ [str_val initstorage,
                        abspath env ''grid2rgn_nonag.csv'' (Some rgnconfig), str_int startmonth] @
                      outs))
                  (Some (VStr logfile)) of
             Inl e \<Rightarrow> Raise e
           | Inr rc \<Rightarrow> if allexist_after env outs then Return rc else Return 1))"

definition Hydro_files ::
  "env \<Rightarrow> string \<Rightarrow> string \<Rightarrow> string \<Rightarrow> string \<Rightarrow> string \<Rightarrow> val \<Rightarrow> int \<Rightarrow> work" where
  "Hydro_files env inputdir outputdir tag runid logfile initstorage startmonth =
     (if \<not> path_exists env (inputdir @ ''pr_Amon_'' @ tag @ ''.mat'')
      then Raise (IOError (''HydroComponent:  '' @ ''missing input file: '' @
                    inputdir @ ''pr_Amon_'' @ tag @ ''.mat''))
      else if \<not> path_exists env (inputdir @ ''tas_Amon_'' @ tag @ ''.mat'')
      then Raise (IOError (''HydroComponent:  '' @ ''missing input file: '' @
                    inputdir @ ''tas_Amon_'' @ tag @ ''.mat''))
      else if \<not> path_exists env (inputdir @ ''dtr_Amon_'' @ tag @ ''.mat'')
      then Raise (IOError (''HydroComponent:  '' @ ''missing input file: '' @
                    inputdir @ ''dtr_Amon_'' @ tag @ ''.mat''))
      else set_results (hydro_outfiles outputdir tag)
             (SetResult ''runid'' (VStr runid)
                (ReadSelf (\<lambda>c. get_clobber c (\<lambda>cl.
                   if \<not> cl \<and> allexist env (map snd (hydro_outfiles outputdir tag))
                   then SetResult ''changed'' (VInt 0) (Return 0)
                   else Hydro_matlab env
                          [inputdir @ ''pr_Amon_'' @ tag @ ''.mat'',
                           inputdir @ ''tas_Amon_'' @ tag @ ''.mat'',
                           inputdir @ ''dtr_Amon_'' @ tag @ ''.mat'']
                          logfile (map snd (hydro_outfiles outputdir tag)) initstorage
                          startmonth)))))"

definition Hydro_run :: "env \<Rightarrow> cap_tbl \<Rightarrow> work" where
  "Hydro_run env tbl =
     ReadSelf (\<lambda>c.
       param c ''workdir'' (\<lambda>workdir. param c ''inputdir'' (\<lambda>inputdir.
       param c ''outputdir'' (\<lambda>outputdir. param c ''gcm'' (\<lambda>gcm.
       param c ''scenario'' (\<lambda>scenario. param c ''runid'' (\<lambda>runid.
       param c ''logfile'' (\<lambda>logfile.
       int_param env c ''startmonth'' 1 (\<lambda>startmonth.
       case mkdir_if_noexist env (abspath env outputdir None) of Some e \<Rightarrow> Raise e | None \<Rightarrow>
       Hydro_hist env tbl c (\<lambda>initstorage.
       add_slash (abspath env inputdir None) (\<lambda>inputdir'.
       add_slash (abspath env outputdir None) (\<lambda>outputdir'.
         Hydro_files env inputdir' outputdir' (gcm @ ''_'' @ scenario @ ''_'' @ runid) runid
           (abspath env logfile None) initstorage startmonth))))))))))))"

text \<open>
  The body of a component is chosen by its class; \<^verbatim>\<open>ComponentBase.run_component\<close> raises
  \<^verbatim>\<open>NotImplementedError\<close>.  \<open>bodies env w\<close> are the bodies of the components of a parsed
  configuration, in the form the executions above take them.
\<close>

definition run_component :: "env \<Rightarrow> cap_tbl \<Rightarrow> cls \<Rightarrow> work" where
  "run_component env tbl cl =
     (case cl of
        ComponentBase \<Rightarrow> Raise (NotImplementedError ''ComponentBase is not a runnable class.'')
      | GlobalParamsComponent \<Rightarrow> GlobalParams_run env
      | GcamComponent \<Rightarrow> Gcam_run env
      | HydroComponent \<Rightarrow> Hydro_run env tbl
      | _ \<Rightarrow> other_body env cl)"

definition bodies :: "env \<Rightarrow> world \<Rightarrow> nat \<Rightarrow> work" where
  "bodies env w t = run_component env (capability_table w) (cls (component_list w ! t))"

text \<open>
  For concrete runs: an environment in which every file exists and every child process
  succeeds.  Its \<open>abspath\<close> follows the description in the docstring of
  \<^verbatim>\<open>GlobalParamsComponent\<close>: a path that starts with \<^verbatim>\<open>/\<close> is kept, any other path is taken
  relative to the given directory, or to the working directory \<^verbatim>\<open>/work\<close>.  \<open>general_component\<close>
  is the component the parser builds from a \<^verbatim>\<open>[global]\<close> section with the two required
  parameters; \<open>no_fetch\<close> answers every fetch with \<^verbatim>\<open>KeyError\<close>.
\<close>

definition with_default :: "val option \<Rightarrow> string \<Rightarrow> string option" where
  "with_default v dflt = (case v of None \<Rightarrow> Some dflt | Some (VStr s) \<Rightarrow> Some s | Some _ \<Rightarrow> None)"

definition demo_abspath :: "string \<Rightarrow> string option \<Rightarrow> string" where
  "demo_abspath p base =
     (if p \<noteq> [] \<and> hd p = CHR ''/'' then p
      else (case base of None \<Rightarrow> ''/work'' | Some b \<Rightarrow> b) @ ''/'' @ p)"

definition demo_env :: env where
  "demo_env = \<lparr>abspath = demo_abspath, getcwd = ''/work'', path_exists = (\<lambda>p. True),
     dirname = (\<lambda>p. ''/g''), path_join = (\<lambda>d p. d @ ''/'' @ p), allexist = (\<lambda>ps. True),
     allexist_after = (\<lambda>ps. True), cfg_dbxml = (\<lambda>p. Some ''db.dbxml''),
     cfg_write_db = (\<lambda>p. Some ''1''), subprocess = (\<lambda>args lf. Inr 0),
     py_int = (\<lambda>s. None),
     unlink = (\<lambda>p. None), mkdir_if_noexist = (\<lambda>p. None),
     hydro_arglist = (\<lambda>names. ''matlab'' # names), other_body = (\<lambda>c. Return 0)\<rparr>"

definition general_section :: cfg_section where
  "general_section = (GlobalParamsComponent, [(''ModelInterface'', ''mi.jar''), (''DBXMLlib'', ''/opt/dbxml'')])"

definition general_component :: component where
  "general_component = component_list (gcam_parse (\<lambda>v. True) [general_section]) ! 0"

text \<open>The component the parser builds from a lone \<^verbatim>\<open>[global]\<close> section with the given lines.\<close>

definition global_component :: "(string \<times> string) list \<Rightarrow> component" where
  "global_component kvs = component_list (gcam_parse (\<lambda>v. True) [(GlobalParamsComponent, kvs)]) ! 0"

definition no_fetch :: "string \<Rightarrow> exn + dict" where
  "no_fetch name = Inl (KeyError name)"

section \<open>Facts about parsing\<close>

lemma new_component_tbl:
  "snd (new_component c self tbl) = (case capability c of None \<Rightarrow> tbl | Some n \<Rightarrow> tbl(n \<mapsto> self))"
  by (cases c) (simp_all add: new_component_def cap_tbl_assign_def)

lemma new_component_cls: "cls (fst (new_component c self tbl)) = c"
  by (cases c) (simp_all add: new_component_def ComponentBase_init_def)

lemma new_component_status: "status (fst (new_component c self tbl)) = 0"
  by (cases c) (simp_all add: new_component_def ComponentBase_init_def)

lemma open_section_list:
  "component_list (open_section c w) =
     component_list w @ [fst (new_component c (length (component_list w)) (capability_table w))]"
  by (simp add: open_section_def split: prod.splits)

lemma open_section_tbl:
  "capability_table (open_section c w) =
     snd (new_component c (length (component_list w)) (capability_table w))"
  by (simp add: open_section_def split: prod.splits)

lemma parse_keyval_tbl: "capability_table (parse_keyval w kv) = capability_table w"
  by (simp add: parse_keyval_def)

lemma parse_keyval_length:
  "component_list w \<noteq> [] \<Longrightarrow> length (component_list (parse_keyval w kv)) = length (component_list w)"
  by (simp add: parse_keyval_def)

lemma parse_keyval_cls:
  "component_list w \<noteq> [] \<Longrightarrow> map cls (component_list (parse_keyval w kv)) = map cls (component_list w)"
proof -
  assume ne: "component_list w \<noteq> []"
  then have "component_list w = butlast (component_list w) @ [last (component_list w)]" by simp
  then have "map cls (component_list w) = map cls (butlast (component_list w)) @ [cls (last (component_list w))]"
    by (metis list.simps(8) list.simps(9) map_append)
  then show ?thesis by (simp add: parse_keyval_def addparam_def)
qed

lemma parse_keyval_status:
  "component_list w \<noteq> [] \<Longrightarrow> map status (component_list (parse_keyval w kv)) = map status (component_list w)"
proof -
  assume ne: "component_list w \<noteq> []"
  then have "component_list w = butlast (component_list w) @ [last (component_list w)]" by simp
  then have "map status (component_list w) = map status (butlast (component_list w)) @ [status (last (component_list w))]"
    by (metis list.simps(8) list.simps(9) map_append)
  then show ?thesis by (simp add: parse_keyval_def addparam_def)
qed

lemma foldl_keyval:
  "component_list w \<noteq> [] \<Longrightarrow>
   capability_table (foldl parse_keyval w kvs) = capability_table w \<and>
   map cls (component_list (foldl parse_keyval w kvs)) = map cls (component_list w) \<and>
   map status (component_list (foldl parse_keyval w kvs)) = map status (component_list w)"
proof (induction kvs arbitrary: w)
  case Nil
  show ?case by simp
next
  case (Cons kv kvs)
  have "component_list (parse_keyval w kv) \<noteq> []" by (simp add: parse_keyval_def)
  from Cons.IH [OF this] Cons.prems show ?case
    by (simp add: parse_keyval_tbl parse_keyval_cls parse_keyval_status)
qed

lemma parse_section_facts:
  "capability_table (parse_section w sec) =
     (case capability (fst sec) of None \<Rightarrow> capability_table w
      | Some n \<Rightarrow> (capability_table w)(n \<mapsto> length (component_list w)))"
  "map cls (component_list (parse_section w sec)) = map cls (component_list w) @ [fst sec]"
  "map status (component_list (parse_section w sec)) = map status (component_list w) @ [0]"
proof -
  have ne: "component_list (open_section (fst sec) w) \<noteq> []" by (simp add: open_section_list)
  note f = foldl_keyval [OF ne, of "snd sec"]
  show "capability_table (parse_section w sec) =
     (case capability (fst sec) of None \<Rightarrow> capability_table w
      | Some n \<Rightarrow> (capability_table w)(n \<mapsto> length (component_list w)))"
    using f by (simp add: parse_section_def open_section_tbl new_component_tbl)
  show "map cls (component_list (parse_section w sec)) = map cls (component_list w) @ [fst sec]"
    using f by (simp add: parse_section_def open_section_list new_component_cls)
  show "map status (component_list (parse_section w sec)) = map status (component_list w) @ [0]"
    using f by (simp add: parse_section_def open_section_list new_component_status)
qed

lemma parsed_snoc: "parsed (secs @ [sec]) = parse_section (parsed secs) sec"
  by (simp add: parsed_def)

lemma parsed_cls: "map cls (component_list (parsed secs)) = map fst secs"
  by (induction secs rule: rev_induct) (simp_all add: parsed_snoc parse_section_facts, simp add: parsed_def)

lemma parsed_length: "length (component_list (parsed secs)) = length secs"
  using arg_cong [OF parsed_cls, of length secs] by simp

lemma parsed_status: "map status (component_list (parsed secs)) = replicate (length secs) 0"
  by (induction secs rule: rev_induct)
     (simp_all add: parsed_snoc parse_section_facts replicate_append_same, simp add: parsed_def)


lemma parsed_tbl_range:
  "capability_table (parsed secs) n = Some i \<Longrightarrow>
     i < length secs \<and> capability (fst (secs ! i)) = Some n \<and>
     (\<forall>j. i < j \<and> j < length secs \<longrightarrow> capability (fst (secs ! j)) \<noteq> Some n)"
proof (induction secs arbitrary: i rule: rev_induct)
  case Nil
  then show ?case by (simp add: parsed_def)
next
  case (snoc sec secs)
  show ?case
  proof (cases "capability (fst sec) = Some n")
    case True
    with snoc.prems have "i = length secs"
      by (simp add: parsed_snoc parse_section_facts parsed_length)
    with True show ?thesis by (auto simp: nth_append)
  next
    case False
    with snoc.prems have "capability_table (parsed secs) n = Some i"
      by (auto simp: parsed_snoc parse_section_facts split: option.splits if_splits)
    from snoc.IH [OF this] False show ?thesis
      by (auto simp: nth_append less_Suc_eq)
  qed
qed

lemma parsed_tbl_None:
  "(capability_table (parsed secs) n = None) = (Some n \<notin> set (map (\<lambda>sec. capability (fst sec)) secs))"
proof (induction secs rule: rev_induct)
  case Nil
  show ?case by (simp add: parsed_def)
next
  case (snoc sec secs)
  then show ?case
    by (auto simp: parsed_snoc parse_section_facts split: option.splits)
qed

lemma gcam_parse_parsed:
  "gcam_parse ptf secs = (parsed secs)\<lparr>component_list := map (finalize_parsing ptf) (component_list (parsed secs))\<rparr>"
  by (simp add: gcam_parse_def parsed_def Let_def)

lemma finalize_parsing_fields:
  "cls (finalize_parsing ptf c) = cls c"
  "status (finalize_parsing ptf c) = status c"
  "results (finalize_parsing ptf c) = results c"
  "params (finalize_parsing ptf c) = params c"
  "dicts (finalize_parsing ptf c) = dicts c"
  by (simp_all add: finalize_parsing_def split: option.splits)

lemma gcam_parse_tbl: "capability_table (gcam_parse ptf secs) = capability_table (parsed secs)"
  by (simp add: gcam_parse_parsed)

lemma gcam_parse_length: "length (component_list (gcam_parse ptf secs)) = length secs"
  by (simp add: gcam_parse_parsed parsed_length)

lemma gcam_parse_cls:
  "i < length secs \<Longrightarrow> cls (component_list (gcam_parse ptf secs) ! i) = fst (secs ! i)"
  using arg_cong [OF parsed_cls, of "\<lambda>xs. xs ! i" secs]
  by (simp add: gcam_parse_parsed parsed_length finalize_parsing_fields)

lemma gcam_parse_status:
  "i < length secs \<Longrightarrow> status (component_list (gcam_parse ptf secs) ! i) = 0"
  using arg_cong [OF parsed_status, of "\<lambda>xs. xs ! i" secs]
  by (simp add: gcam_parse_parsed parsed_length finalize_parsing_fields)

lemma cap_comp_step: "cap (comp_step prog t s) = cap s"
  by (simp add: comp_step_def work_step_def acquire_def release_def set_pc_def upd_comp_def
      split: pc.splits work.splits option.splits sum.splits prod.splits)

lemma cap_main_step: "cap (main_step s) = cap s"
  by (simp add: main_step_def split: mpc.splits pc.splits)

lemma cap_step: "cap (step prog s t) = cap s"
  by (cases t) (simp_all add: cap_comp_step cap_main_step)

lemma cap_run: "cap (run prog sched s) = cap s"
  unfolding run_def by (induction sched arbitrary: s) (simp_all add: cap_step)


lemmas parse_defs = gcam_parse_def parse_section_def open_section_def new_component_def
  ComponentBase_init_def parse_keyval_def addparam_def finalize_parsing_def params_of_def
  cap_tbl_assign_def

lemmas exec_defs = run_def init_def main_step_def comp_step_def work_step_def acquire_def
  release_def set_pc_def upd_comp_def fetch_result_def cap_tbl_lookup_def set_result_def
  results_of_def

section \<open>The invariants hold in every execution\<close>

lemma lock_invI:
  assumes "\<And>b t d. lock s b = Some (t, d) \<Longrightarrow> d = held t (pcs s t) b \<and> 0 < d"
    and "\<And>b t. 0 < held t (pcs s t) b \<Longrightarrow> lock s b = Some (t, held t (pcs s t) b)"
  shows "lock_inv s"
  using assms unfolding lock_inv_def by blast

lemma lockD1: "lock_inv s \<Longrightarrow> lock s b = Some (t, d) \<Longrightarrow> d = held t (pcs s t) b \<and> 0 < d"
  unfolding lock_inv_def by blast

lemma lockD2: "lock_inv s \<Longrightarrow> 0 < held t (pcs s t) b \<Longrightarrow> lock s b = Some (t, held t (pcs s t) b)"
  unfolding lock_inv_def by blast

lemma lock_other:
  assumes "lock_inv s" and "u \<noteq> t" and "lock s b = None \<or> lock s b = Some (t, d)"
  shows "held u (pcs s u) b = 0"
proof (rule ccontr)
  assume "held u (pcs s u) b \<noteq> 0"
  then have "lock s b = Some (u, held u (pcs s u) b)" using lockD2 [OF assms(1), of u b] by simp
  with assms(2,3) show False by auto
qed

lemma wait_invI:
  assumes "\<And>t b. t \<in> waiters s b \<Longrightarrow> \<exists>d k. pcs s t = F_waiting b d k"
    and "\<And>t b. t \<in> waiters s b \<Longrightarrow> \<not> notified_pc (pcs s b)"
    and "\<And>t b d k. pcs s t = F_waiting b d k \<Longrightarrow> d = (if b = t then 2 else 1)"
    and "\<And>t b d k. pcs s t = F_waiting b d k \<Longrightarrow> t \<notin> waiters s b \<Longrightarrow> notified_pc (pcs s b)"
  shows "wait_inv s"
  using assms unfolding wait_inv_def by blast

lemma waitD1: "wait_inv s \<Longrightarrow> t \<in> waiters s b \<Longrightarrow> \<exists>d k. pcs s t = F_waiting b d k"
  unfolding wait_inv_def by blast
lemma waitD2: "wait_inv s \<Longrightarrow> t \<in> waiters s b \<Longrightarrow> \<not> notified_pc (pcs s b)"
  unfolding wait_inv_def by blast
lemma waitD3: "wait_inv s \<Longrightarrow> pcs s t = F_waiting b d k \<Longrightarrow> d = (if b = t then 2 else 1)"
  unfolding wait_inv_def by blast
lemma waitD4: "wait_inv s \<Longrightarrow> pcs s t = F_waiting b d k \<Longrightarrow> t \<notin> waiters s b \<Longrightarrow> notified_pc (pcs s b)"
  unfolding wait_inv_def by blast

lemma fetch_invI:
  assumes "\<And>t b. fetching (pcs s t) = Some b \<Longrightarrow> b < length (comps s)"
    and "\<And>t b k. pcs s t = F_wait b k \<Longrightarrow> pc_status (pcs s b) = 0"
    and "\<And>t b k. pcs s t = F_exit b k \<or> pcs s t = F_check b k \<Longrightarrow> pc_status (pcs s b) \<noteq> 0"
  shows "fetch_inv s"
  using assms unfolding fetch_inv_def by blast

lemma fetchD0: "fetch_inv s \<Longrightarrow> fetching (pcs s t) = Some b \<Longrightarrow> b < length (comps s)"
  unfolding fetch_inv_def by blast
lemma fetchD1: "fetch_inv s \<Longrightarrow> pcs s t = F_wait b k \<Longrightarrow> pc_status (pcs s b) = 0"
  unfolding fetch_inv_def by blast
lemma fetchD2: "fetch_inv s \<Longrightarrow> pcs s t = F_exit b k \<or> pcs s t = F_check b k \<Longrightarrow> pc_status (pcs s b) \<noteq> 0"
  unfolding fetch_inv_def by blast

lemma notified_status: "notified_pc p \<Longrightarrow> pc_status p \<noteq> 0"
  by (cases p rule: pc_status.cases) simp_all


lemma lock_inv_upd:
  assumes li: "lock_inv s"
    and s': "pcs s' = (pcs s)(t := p')" "lock s' = (lock s)(c := l')"
    and other: "\<And>b. b \<noteq> c \<Longrightarrow> held t p' b = held t (pcs s t) b"
    and free: "lock s c = None \<or> (\<exists>d. lock s c = Some (t, d))"
    and l': "l' = (if held t p' c = 0 then None else Some (t, held t p' c))"
  shows "lock_inv s'"
proof (rule lock_invI)
  fix b u d
  assume a: "lock s' b = Some (u, d)"
  show "d = held u (pcs s' u) b \<and> 0 < d"
  proof (cases "b = c")
    case True
    with a l' show ?thesis by (auto simp: s' split: if_splits)
  next
    case False
    with a lockD1 [OF li, of b u d] other [of b] show ?thesis by (auto simp: s')
  qed
next
  fix b u
  assume a: "0 < held u (pcs s' u) b"
  show "lock s' b = Some (u, held u (pcs s' u) b)"
  proof (cases "u = t")
    case True
    show ?thesis
    proof (cases "b = c")
      case True
      with \<open>u = t\<close> a l' show ?thesis by (simp add: s')
    next
      case False
      with \<open>u = t\<close> a other [of b] lockD2 [OF li, of t b] show ?thesis by (simp add: s')
    qed
  next
    case False
    from free have "held u (pcs s u) c = 0"
      using lock_other [OF li False, of c] by auto
    with False a lockD2 [OF li, of u b] show ?thesis by (auto simp: s')
  qed
qed

lemma wait_inv_pc:
  assumes wi: "wait_inv s"
    and s': "pcs s' = (pcs s)(t := p')" "waiters s' = waiters s"
    and p: "\<And>b. t \<notin> waiters s b" "\<And>b d k. p' \<noteq> F_waiting b d k"
    and n: "notified_pc p' = notified_pc (pcs s t)"
  shows "wait_inv s'"
proof (rule wait_invI)
  fix u b assume a: "u \<in> waiters s' b"
  with p(1) [of b] have "u \<noteq> t" by (auto simp: s')
  with a waitD1 [OF wi, of u b] show "\<exists>d k. pcs s' u = F_waiting b d k" by (simp add: s')
next
  fix u b assume "u \<in> waiters s' b"
  then show "\<not> notified_pc (pcs s' b)"
    using waitD2 [OF wi, of u b] n by (auto simp: s')
next
  fix u b d k assume a: "pcs s' u = F_waiting b d k"
  with p(2) [of b d k] have "u \<noteq> t" by (auto simp: s')
  with a show "d = (if b = u then 2 else 1)"
    using waitD3 [OF wi, of u b d k] by (simp add: s')
next
  fix u b d k assume a: "pcs s' u = F_waiting b d k" "u \<notin> waiters s' b"
  with p(2) [of b d k] have "u \<noteq> t" by (auto simp: s')
  with a show "notified_pc (pcs s' b)"
    using waitD4 [OF wi, of u b d k] n by (auto simp: s')
qed

lemma not_waiting:
  assumes wi: "wait_inv s" and p: "\<And>b d k. pcs s t \<noteq> F_waiting b d k"
  shows "t \<notin> waiters s b"
  using waitD1 [OF wi, of t b] p by auto

lemma lock_inv_pc:
  assumes li: "lock_inv s"
    and s': "pcs s' = (pcs s)(t := p')" "lock s' = lock s"
    and h: "\<And>b. held t p' b = held t (pcs s t) b"
  shows "lock_inv s'"
proof (rule lock_invI)
  fix b u d assume "lock s' b = Some (u, d)"
  then show "d = held u (pcs s' u) b \<and> 0 < d"
    using lockD1 [OF li, of b u d] h [of b] by (auto simp: s')
next
  fix b u assume "0 < held u (pcs s' u) b"
  then show "lock s' b = Some (u, held u (pcs s' u) b)"
    using lockD2 [OF li, of u b] h [of b] by (auto simp: s' split: if_splits)
qed

lemma fetch_inv_pc:
  assumes fi: "fetch_inv s"
    and s': "pcs s' = (pcs s)(t := p')" "length (comps s') = length (comps s)"
    and st: "pc_status p' = pc_status (pcs s t)"
    and f0: "\<And>b. fetching p' = Some b \<Longrightarrow> b < length (comps s)"
    and f1: "\<And>b k. p' = F_wait b k \<Longrightarrow> pc_status (pcs s b) = 0"
    and f2: "\<And>b k. p' = F_exit b k \<or> p' = F_check b k \<Longrightarrow> pc_status (pcs s b) \<noteq> 0"
  shows "fetch_inv s'"
proof (rule fetch_invI)
  fix u b assume "fetching (pcs s' u) = Some b"
  then show "b < length (comps s')"
    using fetchD0 [OF fi, of u b] f0 [of b] by (auto simp: s' split: if_splits)
next
  fix u b k assume "pcs s' u = F_wait b k"
  then show "pc_status (pcs s' b) = 0"
    using fetchD1 [OF fi, of u b k] f1 [of b k] st by (auto simp: s' split: if_splits)
next
  fix u b k assume "pcs s' u = F_exit b k \<or> pcs s' u = F_check b k"
  then show "pc_status (pcs s' b) \<noteq> 0"
    using fetchD2 [OF fi, of u b k] f2 [of b k] st by (auto simp: s' split: if_splits)
qed

lemma status_inv_upd:
  assumes si: "status_inv s"
    and s': "pcs s' = (pcs s)(t := p')" "length (comps s') = length (comps s)"
    and o: "\<And>u. u \<noteq> t \<Longrightarrow> u < length (comps s) \<Longrightarrow> status (comps s' ! u) = status (comps s ! u)"
    and t: "t < length (comps s)" "status (comps s' ! t) = pc_status p'"
  shows "status_inv s'"
  using si o t unfolding status_inv_def by (auto simp: s')

lemma status_started: "status_inv s \<Longrightarrow> pcs s t \<noteq> Unstarted \<Longrightarrow> t < length (comps s)"
  unfolding status_inv_def by (metis not_le)

lemma main_inv_upd:
  assumes "main_inv s" and "pcs s' = (pcs s)(t := p')" "mpc s' = mpc s" "pcs s t \<noteq> Unstarted"
  shows "main_inv s'"
  using assms unfolding main_inv_def by auto

lemma cap_inv_upd:
  assumes "cap_inv s" and "cap s' = cap s" "length (comps s') = length (comps s)"
  shows "cap_inv s'"
  using assms unfolding cap_inv_def by auto


lemma set_pc_fields [simp]:
  "pcs (set_pc t p s) = (pcs s)(t := p)" "lock (set_pc t p s) = lock s"
  "waiters (set_pc t p s) = waiters s" "comps (set_pc t p s) = comps s"
  "cap (set_pc t p s) = cap s" "mpc (set_pc t p s) = mpc s"
  by (simp_all add: set_pc_def)

lemma upd_comp_fields [simp]:
  "pcs (upd_comp b f s) = pcs s" "lock (upd_comp b f s) = lock s"
  "waiters (upd_comp b f s) = waiters s" "comps (upd_comp b f s) = (comps s)[b := f (comps s ! b)]"
  "cap (upd_comp b f s) = cap s" "mpc (upd_comp b f s) = mpc s"
  by (simp_all add: upd_comp_def)

lemma release_fields [simp]:
  "pcs (release t b s) = pcs s" "waiters (release t b s) = waiters s"
  "comps (release t b s) = comps s" "cap (release t b s) = cap s" "mpc (release t b s) = mpc s"
  by (simp_all add: release_def split: option.splits prod.splits)

lemma release_lock:
  "lock s b = Some (t, d) \<Longrightarrow>
   lock (release t b s) = (lock s)(b := if 1 < d then Some (t, d - 1) else None)"
  by (simp add: release_def)

lemma acquire_fields:
  assumes "acquire t b s = Some s1"
  shows "pcs s1 = pcs s" "waiters s1 = waiters s" "comps s1 = comps s" "cap s1 = cap s"
    "mpc s1 = mpc s"
    "lock s b = None \<and> lock s1 = (lock s)(b := Some (t, 1)) \<or>
     (\<exists>d. lock s b = Some (t, d) \<and> lock s1 = (lock s)(b := Some (t, Suc d)))"
  using assms by (auto simp: acquire_def split: option.splits prod.splits if_splits)

lemma invD:
  assumes "inv s"
  shows "lock_inv s" "wait_inv s" "fetch_inv s" "status_inv s" "main_inv s" "cap_inv s"
  using assms by (simp_all add: inv_def)

lemma status_eq: "status_inv s \<Longrightarrow> t < length (comps s) \<Longrightarrow> status (comps s ! t) = pc_status (pcs s t)"
  by (simp add: status_inv_def)

text \<open>A step that only moves the control point of a thread inside its wrapper.\<close>

lemma inv_pc_only:
  assumes i: "inv s"
    and s': "pcs s' = (pcs s)(t := p')" "lock s' = lock s" "waiters s' = waiters s"
      "cap s' = cap s" "mpc s' = mpc s" "length (comps s') = length (comps s)"
      "\<And>u. u < length (comps s) \<Longrightarrow> status (comps s' ! u) = status (comps s ! u)"
    and h: "\<And>b. held t p' b = held t (pcs s t) b"
    and u: "pcs s t \<noteq> Unstarted"
    and w: "\<And>b d k. pcs s t \<noteq> F_waiting b d k" "\<And>b d k. p' \<noteq> F_waiting b d k"
    and n: "notified_pc p' = notified_pc (pcs s t)"
    and st: "pc_status p' = pc_status (pcs s t)"
    and f0: "\<And>b. fetching p' = Some b \<Longrightarrow> b < length (comps s)"
    and f1: "\<And>b k. p' = F_wait b k \<Longrightarrow> pc_status (pcs s b) = 0"
    and f2: "\<And>b k. p' = F_exit b k \<or> p' = F_check b k \<Longrightarrow> pc_status (pcs s b) \<noteq> 0"
  shows "inv s'"
proof -
  note d = invD [OF i]
  have t: "t < length (comps s)" using status_started [OF d(4) u] .
  have "lock_inv s'" using lock_inv_pc [OF d(1) s'(1,2) h] .
  moreover have "wait_inv s'"
    using wait_inv_pc [OF d(2) s'(1,3) not_waiting [OF d(2) w(1)] w(2) n] .
  moreover have "fetch_inv s'" using fetch_inv_pc [OF d(3) s'(1,6) st f0 f1 f2] .
  moreover have "status_inv s'"
    using status_inv_upd [OF d(4) s'(1,6) s'(7) t] s'(7) [OF t] status_eq [OF d(4) t] st by simp
  moreover have "main_inv s'" using main_inv_upd [OF d(5) s'(1,5) u] .
  moreover have "cap_inv s'" using cap_inv_upd [OF d(6) s'(4,6)] .
  ultimately show ?thesis by (simp add: inv_def)
qed

lemma inv_set_pc:
  assumes i: "inv s"
    and h: "\<And>b. held t p' b = held t (pcs s t) b"
    and u: "pcs s t \<noteq> Unstarted"
    and w: "\<And>b d k. pcs s t \<noteq> F_waiting b d k" "\<And>b d k. p' \<noteq> F_waiting b d k"
    and n: "notified_pc p' = notified_pc (pcs s t)"
    and st: "pc_status p' = pc_status (pcs s t)"
    and f0: "\<And>b. fetching p' = Some b \<Longrightarrow> b < length (comps s)"
    and f1: "\<And>b k. p' = F_wait b k \<Longrightarrow> pc_status (pcs s b) = 0"
    and f2: "\<And>b k. p' = F_exit b k \<or> p' = F_check b k \<Longrightarrow> pc_status (pcs s b) \<noteq> 0"
  shows "inv (set_pc t p' s)"
  by (rule inv_pc_only [OF i, where t = t and p' = p']) (simp_all add: h u w n st f0 f1 f2)

lemma inv_set_pc_upd:
  assumes i: "inv s"
    and f: "\<And>c. status (f c) = status c"
    and h: "\<And>b. held t p' b = held t (pcs s t) b"
    and u: "pcs s t \<noteq> Unstarted"
    and w: "\<And>b d k. pcs s t \<noteq> F_waiting b d k" "\<And>b d k. p' \<noteq> F_waiting b d k"
    and n: "notified_pc p' = notified_pc (pcs s t)"
    and st: "pc_status p' = pc_status (pcs s t)"
    and f0: "\<And>b. fetching p' = Some b \<Longrightarrow> b < length (comps s)"
    and f1: "\<And>b k. p' = F_wait b k \<Longrightarrow> pc_status (pcs s b) = 0"
    and f2: "\<And>b k. p' = F_exit b k \<or> p' = F_check b k \<Longrightarrow> pc_status (pcs s b) \<noteq> 0"
  shows "inv (set_pc t p' (upd_comp t f s))"
proof (rule inv_pc_only [OF i, where t = t and p' = p'])
  fix u assume "u < length (comps s)"
  then show "status (comps (set_pc t p' (upd_comp t f s)) ! u) = status (comps s ! u)"
    by (cases "u = t") (simp_all add: f)
qed (simp_all add: h u w n st f0 f1 f2)

lemma inv_work_step:
  assumes i: "inv s" and p: "pcs s t = W_run w"
  shows "inv (work_step t w s)"
proof -
  note d = invD [OF i]
  show ?thesis
  proof (cases w)
    case (Return rv)
    have "inv (set_pc t W_ok s)" by (rule inv_set_pc [OF i]) (simp_all add: p)
    moreover have "inv (set_pc t (W_except e) s)" for e
      by (rule inv_set_pc [OF i]) (simp_all add: p)
    ultimately show ?thesis by (simp add: work_step_def Return)
  next
    case (Raise e)
    have "inv (set_pc t (W_except e) s)" by (rule inv_set_pc [OF i]) (simp_all add: p)
    then show ?thesis by (simp add: work_step_def Raise)
  next
    case (SetResult k v w')
    have "inv (set_pc t (W_run w') (upd_comp t (set_result k v) s))"
      by (rule inv_set_pc_upd [OF i]) (simp_all add: p set_result_def)
    then show ?thesis by (simp add: work_step_def SetResult)
  next
    case (ReadSelf f)
    have "inv (set_pc t (W_run w') s)" for w'
      by (rule inv_set_pc [OF i]) (simp_all add: p)
    then show ?thesis by (simp add: work_step_def ReadSelf)
  next
    case (Fetch name k)
    show ?thesis
    proof (cases "cap s name")
      case None
      have "inv (set_pc t (W_except e) s)" for e
        by (rule inv_set_pc [OF i]) (simp_all add: p)
      then show ?thesis by (simp add: work_step_def Fetch None cap_tbl_lookup_def)
    next
      case (Some b)
      then have "b < length (comps s)" using d(6) by (simp add: cap_inv_def)
      then have "inv (set_pc t (F_enter b k) s)"
        by - (rule inv_set_pc [OF i], auto simp: p)
      then show ?thesis by (simp add: work_step_def Fetch Some cap_tbl_lookup_def)
    qed
  qed
qed

lemma inv_F_test:
  assumes i: "inv s" and p: "pcs s t = F_test b k"
  shows "inv (comp_step prog t s)"
proof -
  note d = invD [OF i]
  have b: "b < length (comps s)" using fetchD0 [OF d(3), of t b] p by simp
  have st: "status (comps s ! b) = pc_status (pcs s b)" using status_eq [OF d(4) b] .
  have 1: "inv (set_pc t (F_wait b k) s)" if "status (comps s ! b) = 0"
    using that b st by - (rule inv_set_pc [OF i], auto simp: p)
  have 2: "inv (set_pc t (F_exit b k) s)" if "status (comps s ! b) \<noteq> 0"
    using that b st by - (rule inv_set_pc [OF i], auto simp: p)
  from 1 2 show ?thesis by (simp add: comp_step_def p)
qed

lemma inv_F_check:
  assumes i: "inv s" and p: "pcs s t = F_check b k"
  shows "inv (comp_step prog t s)"
proof -
  have 1: "inv (set_pc t (W_except e) s)" for e
    by (rule inv_set_pc [OF i]) (simp_all add: p)
  have 2: "inv (set_pc t (W_run w) s)" for w
    by (rule inv_set_pc [OF i]) (simp_all add: p)
  from 1 2 show ?thesis by (simp add: comp_step_def p split: sum.splits)
qed

lemma inv_lock_step:
  assumes i: "inv s"
    and s': "pcs s' = (pcs s)(t := p')" "lock s' = (lock s)(c := l')" "waiters s' = waiters s"
      "cap s' = cap s" "mpc s' = mpc s" "comps s' = comps s"
    and other: "\<And>b. b \<noteq> c \<Longrightarrow> held t p' b = held t (pcs s t) b"
    and free: "lock s c = None \<or> (\<exists>d. lock s c = Some (t, d))"
    and l': "l' = (if held t p' c = 0 then None else Some (t, held t p' c))"
    and u: "pcs s t \<noteq> Unstarted"
    and w: "\<And>b. t \<notin> waiters s b" "\<And>b d k. p' \<noteq> F_waiting b d k"
    and n: "notified_pc p' = notified_pc (pcs s t)"
    and st: "pc_status p' = pc_status (pcs s t)"
    and f0: "\<And>b. fetching p' = Some b \<Longrightarrow> b < length (comps s)"
    and f1: "\<And>b k. p' = F_wait b k \<Longrightarrow> pc_status (pcs s b) = 0"
    and f2: "\<And>b k. p' = F_exit b k \<or> p' = F_check b k \<Longrightarrow> pc_status (pcs s b) \<noteq> 0"
  shows "inv s'"
proof -
  note d = invD [OF i]
  have t: "t < length (comps s)" using status_started [OF d(4) u] .
  have len: "length (comps s') = length (comps s)" by (simp add: s')
  have "lock_inv s'" using lock_inv_upd [OF d(1) s'(1,2) other free l'] .
  moreover have "wait_inv s'" using wait_inv_pc [OF d(2) s'(1,3) w n] .
  moreover have "fetch_inv s'" using fetch_inv_pc [OF d(3) s'(1) len st f0 f1 f2] .
  moreover have "status_inv s'"
    using status_inv_upd [OF d(4) s'(1) len _ t] status_eq [OF d(4) t] st by (simp add: s')
  moreover have "main_inv s'" using main_inv_upd [OF d(5) s'(1,5) u] .
  moreover have "cap_inv s'" using cap_inv_upd [OF d(6) s'(4) len] .
  ultimately show ?thesis by (simp add: inv_def)
qed

lemma inv_W_enter:
  assumes i: "inv s" and p: "pcs s t = W_enter"
  shows "inv (comp_step prog t s)"
proof (cases "acquire t t s")
  case None
  with i show ?thesis by (simp add: comp_step_def p)
next
  case (Some s1)
  note d = invD [OF i]
  note a = acquire_fields [OF Some]
  have nl: "lock s t \<noteq> Some (t, e)" for e
    using lockD1 [OF d(1), of t t e] p by auto
  with a(6) have l: "lock s t = None" "lock s1 = (lock s)(t := Some (t, 1))" by auto
  have "inv (set_pc t (W_run (prog t)) s1)"
    by (rule inv_lock_step [OF i, where t = t and c = t and l' = "Some (t, 1)"
          and p' = "W_run (prog t)"])
       (simp_all add: a l p not_waiting [OF d(2)])
  then show ?thesis by (simp add: comp_step_def p Some)
qed

lemma inv_F_enter:
  assumes i: "inv s" and p: "pcs s t = F_enter b k"
  shows "inv (comp_step prog t s)"
proof (cases "acquire t b s")
  case None
  with i show ?thesis by (simp add: comp_step_def p)
next
  case (Some s1)
  note d = invD [OF i]
  note a = acquire_fields [OF Some]
  have b: "b < length (comps s)" using fetchD0 [OF d(3), of t b] p by simp
  have own: "lock s t = Some (t, 1)" using lockD2 [OF d(1), of t t] p by simp
  from a(6) have l: "lock s1 = (lock s)(b := Some (t, held t (F_test b k) b))"
      "lock s b = None \<or> (\<exists>e. lock s b = Some (t, e))"
    using own lockD1 [OF d(1), of b t] p by (auto split: if_splits)
  have "inv (set_pc t (F_test b k) s1)"
    by (rule inv_lock_step [OF i, where t = t and c = b
          and l' = "Some (t, held t (F_test b k) b)" and p' = "F_test b k"])
       (use l b in \<open>auto simp: a p not_waiting [OF d(2)]\<close>)
  then show ?thesis by (simp add: comp_step_def p Some)
qed

lemma inv_F_waiting:
  assumes i: "inv s" and p: "pcs s t = F_waiting b d k"
  shows "inv (comp_step prog t s)"
proof (cases "t \<notin> waiters s b \<and> lock s b = None")
  case False
  with i show ?thesis by (auto simp: comp_step_def p)
next
  case True
  note iv = invD [OF i]
  have nb: "notified_pc (pcs s b)" using waitD4 [OF iv(2) p] True by simp
  then have bt: "b \<noteq> t" using p by auto
  have dd: "d = 1" using waitD3 [OF iv(2) p] bt by simp
  have nw: "t \<notin> waiters s c" for c
    using waitD1 [OF iv(2), of t c] p True by auto
  have "inv (set_pc t (F_exit b k) (s\<lparr>lock := (lock s)(b := Some (t, d))\<rparr>))"
    by (rule inv_lock_step [OF i, where t = t and c = b and l' = "Some (t, d)"
          and p' = "F_exit b k"])
       (use True bt dd nw notified_status [OF nb] fetchD0 [OF iv(3), of t b] in \<open>auto simp: p\<close>)
  with True show ?thesis by (simp add: comp_step_def p)
qed

lemma inv_F_exit:
  assumes i: "inv s" and p: "pcs s t = F_exit b k"
  shows "inv (comp_step prog t s)"
proof -
  note d = invD [OF i]
  have l: "lock s b = Some (t, held t (F_exit b k) b)" using lockD2 [OF d(1), of t b] p by simp
  have "inv (set_pc t (F_check b k) (release t b s))"
    by (rule inv_lock_step [OF i, where t = t and c = b and p' = "F_check b k"
          and l' = "if 1 < held t (F_exit b k) b then Some (t, held t (F_exit b k) b - 1) else None"])
       (use l fetchD0 [OF d(3), of t b] fetchD2 [OF d(3), of t b k] in
          \<open>auto simp: p release_lock not_waiting [OF d(2)]\<close>)
  then show ?thesis by (simp add: comp_step_def p)
qed

lemma inv_W_exit:
  assumes i: "inv s" and p: "pcs s t = W_exit eo"
  shows "inv (comp_step prog t s)"
proof -
  note d = invD [OF i]
  have l: "lock s t = Some (t, 1)" using lockD2 [OF d(1), of t t] p by simp
  have "inv (set_pc t (Done eo) (release t t s))"
    by (rule inv_lock_step [OF i, where t = t and c = t and l' = None and p' = "Done eo"])
       (use l in \<open>auto simp: p release_lock not_waiting [OF d(2)]\<close>, cases eo, simp_all)
  then show ?thesis by (simp add: comp_step_def p)
qed

lemma inv_F_wait:
  assumes i: "inv s" and p: "pcs s t = F_wait b k"
  shows "inv (comp_step prog t s)"
proof -
  note iv = invD [OF i]
  define d where "d = held t (F_wait b k) b"
  have l: "lock s b = Some (t, d)" using lockD2 [OF iv(1), of t b] p by (simp add: d_def)
  define s' where "s' = set_pc t (F_waiting b d k)
       (s\<lparr>lock := (lock s)(b := None), waiters := (waiters s)(b := insert t (waiters s b))\<rparr>)"
  have f: "pcs s' = (pcs s)(t := F_waiting b d k)" "lock s' = (lock s)(b := None)"
    "waiters s' = (waiters s)(b := insert t (waiters s b))" "comps s' = comps s"
    "cap s' = cap s" "mpc s' = mpc s"
    by (simp_all add: s'_def)
  have len: "length (comps s') = length (comps s)" by (simp add: f)
  have u: "pcs s t \<noteq> Unstarted" by (simp add: p)
  have t: "t < length (comps s)" using status_started [OF iv(4) u] .
  have b0: "pc_status (pcs s b) = 0" using fetchD1 [OF iv(3) p] .
  have nn: "\<not> notified_pc (pcs s b)" using notified_status [of "pcs s b"] b0 by auto
  have "lock_inv s'"
    by (rule lock_inv_upd [OF iv(1) f(1,2)])
       (use l in \<open>auto simp: p d_def\<close>)
  moreover have "wait_inv s'"
  proof (rule wait_invI)
    fix u c assume "u \<in> waiters s' c"
    then show "\<exists>e k'. pcs s' u = F_waiting c e k'"
      using waitD1 [OF iv(2), of u c] waitD1 [OF iv(2), of t c] p
      by (auto simp: f split: if_splits)
  next
    fix u c assume "u \<in> waiters s' c"
    then show "\<not> notified_pc (pcs s' c)"
      using waitD2 [OF iv(2), of u c] nn by (auto simp: f split: if_splits)
  next
    fix u c e k' assume "pcs s' u = F_waiting c e k'"
    then show "e = (if c = u then 2 else 1)"
      using waitD3 [OF iv(2), of u c e k'] by (auto simp: f d_def split: if_splits)
  next
    fix u c e k' assume "pcs s' u = F_waiting c e k'" "u \<notin> waiters s' c"
    then show "notified_pc (pcs s' c)"
      using waitD4 [OF iv(2), of u c e k'] p by (auto simp: f split: if_splits)
  qed
  moreover have "fetch_inv s'"
    by (rule fetch_inv_pc [OF iv(3) f(1) len])
       (use fetchD0 [OF iv(3), of t b] in \<open>auto simp: p\<close>)
  moreover have "status_inv s'"
    using status_inv_upd [OF iv(4) f(1) len _ t] status_eq [OF iv(4) t] by (simp add: f p)
  moreover have "main_inv s'" using main_inv_upd [OF iv(5) f(1,6) u] .
  moreover have "cap_inv s'" using cap_inv_upd [OF iv(6) f(5) len] .
  ultimately have "inv s'" by (simp add: inv_def)
  then show ?thesis using l by (simp add: comp_step_def p s'_def)
qed

lemma inv_set_status:
  assumes i: "inv s" and p: "pcs s t = W_ok \<or> (\<exists>e. pcs s t = W_except e)"
    and q: "pc_status (W_finally eo) = v"
  shows "inv (set_pc t (W_finally eo) (upd_comp t (\<lambda>c. c\<lparr>status := v\<rparr>) s))"
proof -
  note iv = invD [OF i]
  define s' where "s' = set_pc t (W_finally eo) (upd_comp t (\<lambda>c. c\<lparr>status := v\<rparr>) s)"
  have f: "pcs s' = (pcs s)(t := W_finally eo)" "lock s' = lock s"
    "waiters s' = waiters s" "comps s' = (comps s)[t := (comps s ! t)\<lparr>status := v\<rparr>]"
    "cap s' = cap s" "mpc s' = mpc s"
    by (simp_all add: s'_def)
  have len: "length (comps s') = length (comps s)" by (simp add: f)
  have u: "pcs s t \<noteq> Unstarted" using p by auto
  have t: "t < length (comps s)" using status_started [OF iv(4) u] .
  have own: "lock s t = Some (t, 1)" using lockD2 [OF iv(1), of t t] p by auto
  have st0: "pc_status (pcs s t) = 0" using p by auto
  have "lock_inv s'"
    by (rule lock_inv_pc [OF iv(1) f(1,2)]) (use p in auto)
  moreover have "wait_inv s'"
    by (rule wait_inv_pc [OF iv(2) f(1,3)]) (use p waitD1 [OF iv(2), of t] in auto)
  moreover have "fetch_inv s'"
  proof (rule fetch_invI)
    fix u b assume "fetching (pcs s' u) = Some b"
    then show "b < length (comps s')"
      using fetchD0 [OF iv(3), of u b] by (auto simp: f split: if_splits)
  next
    fix u b k assume a: "pcs s' u = F_wait b k"
    then have ut: "u \<noteq> t" and pu: "pcs s u = F_wait b k" by (auto simp: f split: if_splits)
    have "b \<noteq> t"
    proof
      assume "b = t"
      then have "lock s t = Some (u, held u (F_wait t k) t)"
        using lockD2 [OF iv(1), of u t] pu by simp
      with own ut show False by simp
    qed
    then show "pc_status (pcs s' b) = 0" using fetchD1 [OF iv(3) pu] by (simp add: f)
  next
    fix u b k assume "pcs s' u = F_exit b k \<or> pcs s' u = F_check b k"
    then show "pc_status (pcs s' b) \<noteq> 0"
      using fetchD2 [OF iv(3), of u b k] st0 by (auto simp: f split: if_splits)
  qed
  moreover have "status_inv s'"
    by (rule status_inv_upd [OF iv(4) f(1) len _ t]) (use t q in \<open>auto simp: f\<close>)
  moreover have "main_inv s'" using main_inv_upd [OF iv(5) f(1,6) u] .
  moreover have "cap_inv s'" using cap_inv_upd [OF iv(6) f(5) len] .
  ultimately show ?thesis by (simp add: inv_def s'_def)
qed

lemma inv_W_finally:
  assumes i: "inv s" and p: "pcs s t = W_finally eo"
  shows "inv (comp_step prog t s)"
proof -
  note iv = invD [OF i]
  define s' where "s' = set_pc t (W_exit eo) (s\<lparr>waiters := (waiters s)(t := {})\<rparr>)"
  have f: "pcs s' = (pcs s)(t := W_exit eo)" "lock s' = lock s"
    "waiters s' = (waiters s)(t := {})" "comps s' = comps s"
    "cap s' = cap s" "mpc s' = mpc s"
    by (simp_all add: s'_def)
  have len: "length (comps s') = length (comps s)" by (simp add: f)
  have u: "pcs s t \<noteq> Unstarted" using p by auto
  have t: "t < length (comps s)" using status_started [OF iv(4) u] .
  have st: "pc_status (W_exit eo) = pc_status (W_finally eo)" by (cases eo) simp_all
  have "lock_inv s'"
    by (rule lock_inv_pc [OF iv(1) f(1,2)]) (use p in auto)
  moreover have "wait_inv s'"
  proof (rule wait_invI)
    fix u c assume "u \<in> waiters s' c"
    then show "\<exists>e k'. pcs s' u = F_waiting c e k'"
      using waitD1 [OF iv(2), of u c] p by (auto simp: f split: if_splits)
  next
    fix u c assume "u \<in> waiters s' c"
    then show "\<not> notified_pc (pcs s' c)"
      using waitD2 [OF iv(2), of u c] by (auto simp: f split: if_splits)
  next
    fix u c e k' assume "pcs s' u = F_waiting c e k'"
    then show "e = (if c = u then 2 else 1)"
      using waitD3 [OF iv(2), of u c e k'] by (auto simp: f split: if_splits)
  next
    fix u c e k' assume "pcs s' u = F_waiting c e k'" "u \<notin> waiters s' c"
    then show "notified_pc (pcs s' c)"
      using waitD4 [OF iv(2), of u c e k'] by (auto simp: f split: if_splits)
  qed
  moreover have "fetch_inv s'"
    by (rule fetch_inv_pc [OF iv(3) f(1) len]) (use st in \<open>auto simp: p\<close>)
  moreover have "status_inv s'"
    using status_inv_upd [OF iv(4) f(1) len _ t] status_eq [OF iv(4) t] st by (simp add: f p)
  moreover have "main_inv s'" using main_inv_upd [OF iv(5) f(1,6) u] .
  moreover have "cap_inv s'" using cap_inv_upd [OF iv(6) f(5) len] .
  ultimately have "inv s'" by (simp add: inv_def)
  then show ?thesis by (simp add: comp_step_def p s'_def)
qed

lemma inv_comp_step: "inv s \<Longrightarrow> inv (comp_step prog t s)"
proof (cases "pcs s t")
  case Unstarted
  assume "inv s" then show ?thesis by (simp add: comp_step_def Unstarted)
next
  case W_enter
  assume "inv s" then show ?thesis using inv_W_enter W_enter by simp
next
  case (W_run w)
  assume "inv s" then show ?thesis using inv_work_step [of s t w] W_run by (simp add: comp_step_def)
next
  case (F_enter b k)
  assume "inv s" then show ?thesis using inv_F_enter F_enter by simp
next
  case (F_test b k)
  assume "inv s" then show ?thesis using inv_F_test F_test by simp
next
  case (F_wait b k)
  assume "inv s" then show ?thesis using inv_F_wait F_wait by simp
next
  case (F_waiting b d k)
  assume "inv s" then show ?thesis using inv_F_waiting F_waiting by simp
next
  case (F_exit b k)
  assume "inv s" then show ?thesis using inv_F_exit F_exit by simp
next
  case (F_check b k)
  assume "inv s" then show ?thesis using inv_F_check F_check by simp
next
  case W_ok
  assume "inv s" then show ?thesis using inv_set_status [of s t None 1] W_ok
    by (simp add: comp_step_def)
next
  case (W_except e)
  assume "inv s" then show ?thesis using inv_set_status [of s t "Some e" 2] W_except
    by (simp add: comp_step_def)
next
  case (W_finally eo)
  assume "inv s" then show ?thesis using inv_W_finally W_finally by simp
next
  case (W_exit eo)
  assume "inv s" then show ?thesis using inv_W_exit W_exit by simp
next
  case (Done eo)
  assume "inv s" then show ?thesis by (simp add: comp_step_def Done)
qed

lemma mpc_update_inv:
  "lock_inv (s\<lparr>mpc := m\<rparr>) = lock_inv s"
  "wait_inv (s\<lparr>mpc := m\<rparr>) = wait_inv s"
  "fetch_inv (s\<lparr>mpc := m\<rparr>) = fetch_inv s"
  "status_inv (s\<lparr>mpc := m\<rparr>) = status_inv s"
  "cap_inv (s\<lparr>mpc := m\<rparr>) = cap_inv s"
  by (simp_all add: lock_inv_def wait_inv_def fetch_inv_def status_inv_def cap_inv_def)

lemma main_inv_not_run: "(\<And>i. m \<noteq> M_run i) \<Longrightarrow> main_inv (s\<lparr>mpc := m\<rparr>)"
  by (simp add: main_inv_def)

lemma inv_mpc_update:
  assumes "inv s" and "\<And>i. m \<noteq> M_run i"
  shows "inv (s\<lparr>mpc := m\<rparr>)"
  unfolding inv_def mpc_update_inv
  using invD [OF assms(1)] main_inv_not_run [of m s, OF assms(2)] by blast

lemma inv_start:
  assumes i: "inv s" and m: "mpc s = M_run j" and j: "j < length (comps s)"
  shows "inv (s\<lparr>pcs := (pcs s)(j := W_enter), mpc := M_run (Suc j)\<rparr>)"
proof -
  note iv = invD [OF i]
  define s' where "s' = s\<lparr>pcs := (pcs s)(j := W_enter), mpc := M_run (Suc j)\<rparr>"
  have f: "pcs s' = (pcs s)(j := W_enter)" "lock s' = lock s" "waiters s' = waiters s"
    "comps s' = comps s" "cap s' = cap s" "mpc s' = M_run (Suc j)"
    by (simp_all add: s'_def)
  have len: "length (comps s') = length (comps s)" by (simp add: f)
  from iv(5) m have un: "\<And>t. j \<le> t \<Longrightarrow> pcs s t = Unstarted" by (simp add: main_inv_def)
  then have pj: "pcs s j = Unstarted" by simp
  have "lock_inv s'" by (rule lock_inv_pc [OF iv(1) f(1,2)]) (simp add: pj)
  moreover have "wait_inv s'"
    by (rule wait_inv_pc [OF iv(2) f(1,3)]) (use waitD1 [OF iv(2), of j] pj in auto)
  moreover have "fetch_inv s'" by (rule fetch_inv_pc [OF iv(3) f(1) len]) (simp_all add: pj)
  moreover have "status_inv s'"
    using status_inv_upd [OF iv(4) f(1) len _ j] status_eq [OF iv(4) j] by (simp add: f pj)
  moreover have "main_inv s'" using un by (simp add: main_inv_def f)
  moreover have "cap_inv s'" using cap_inv_upd [OF iv(6) f(5) len] .
  ultimately show ?thesis by (simp add: inv_def s'_def)
qed

lemma inv_main_step: "inv s \<Longrightarrow> inv (main_step s)"
proof (cases "mpc s")
  case (M_run j)
  assume "inv s"
  then show ?thesis using M_run inv_start [of s j] inv_mpc_update [of s "M_join 0"]
    by (simp add: main_step_def)
next
  case (M_join j)
  assume i: "inv s"
  have 1: "inv (s\<lparr>mpc := M_join (Suc j)\<rparr>)" by (rule inv_mpc_update [OF i]) simp
  have 2: "inv (s\<lparr>mpc := M_check 0 0\<rparr>)" by (rule inv_mpc_update [OF i]) simp
  from i 1 2 show ?thesis by (cases "pcs s j") (simp_all add: main_step_def M_join)
next
  case (M_check j fail)
  assume i: "inv s"
  have 1: "inv (s\<lparr>mpc := M_check (Suc j) f\<rparr>)" for f by (rule inv_mpc_update [OF i]) simp
  have 2: "inv (s\<lparr>mpc := M_done fail\<rparr>)" by (rule inv_mpc_update [OF i]) simp
  from 1 2 show ?thesis by (simp add: main_step_def M_check)
next
  case (M_done fail)
  assume "inv s"
  then show ?thesis using M_done by (simp add: main_step_def)
qed

lemma inv_step: "inv s \<Longrightarrow> inv (step prog s x)"
  by (cases x) (simp_all add: inv_main_step inv_comp_step)

lemma run_Nil [simp]: "run prog [] s = s"
  by (simp add: run_def)

lemma run_Cons [simp]: "run prog (x # xs) s = run prog xs (step prog s x)"
  by (simp add: run_def)

lemma run_append: "run prog (xs @ ys) s = run prog ys (run prog xs s)"
  by (simp add: run_def)

lemma run_snoc: "run prog (xs @ [x]) s = step prog (run prog xs s) x"
  by (simp add: run_def)

lemma inv_run: "inv s \<Longrightarrow> inv (run prog sched s)"
  by (induction sched arbitrary: s) (simp_all add: inv_step)

section \<open>What never changes once a component has finished\<close>

lemma inv_init: "inv (init (gcam_parse ptf secs))"
proof -
  let ?w = "gcam_parse ptf secs"
  have "lock_inv (init ?w)" by (simp add: lock_inv_def init_def)
  moreover have "wait_inv (init ?w)" by (simp add: wait_inv_def init_def)
  moreover have "fetch_inv (init ?w)" by (simp add: fetch_inv_def init_def)
  moreover have "status_inv (init ?w)"
    by (simp add: status_inv_def init_def gcam_parse_length gcam_parse_status)
  moreover have "main_inv (init ?w)" by (simp add: main_inv_def init_def)
  moreover have "cap_inv (init ?w)"
    using parsed_tbl_range [of secs]
    by (auto simp: cap_inv_def init_def gcam_parse_length gcam_parse_tbl)
  ultimately show ?thesis by (simp add: inv_def)
qed

lemma inv_reach: "inv (run prog sched (init (gcam_parse ptf secs)))"
  by (rule inv_run [OF inv_init])

text \<open>Frame properties of a step.\<close>

lemma length_comp_step [simp]: "length (comps (comp_step prog t s)) = length (comps s)"
  by (simp add: comp_step_def work_step_def acquire_def
      split: pc.splits work.splits option.splits sum.splits prod.splits)

lemma length_main_step [simp]: "length (comps (main_step s)) = length (comps s)"
  by (simp add: main_step_def split: mpc.splits pc.splits)

lemma length_step [simp]: "length (comps (step prog s x)) = length (comps s)"
  by (cases x) simp_all

lemma length_run [simp]: "length (comps (run prog sched s)) = length (comps s)"
  by (induction sched arbitrary: s) simp_all

lemma comps_main_step [simp]: "comps (main_step s) = comps s"
  by (simp add: main_step_def split: mpc.splits pc.splits)

lemma lock_main_step [simp]: "lock (main_step s) = lock s"
  by (simp add: main_step_def split: mpc.splits pc.splits)

lemma waiters_main_step [simp]: "waiters (main_step s) = waiters s"
  by (simp add: main_step_def split: mpc.splits pc.splits)

lemma mpc_comp_step [simp]: "mpc (comp_step prog t s) = mpc s"
  by (simp add: comp_step_def work_step_def acquire_def
      split: pc.splits work.splits option.splits sum.splits prod.splits)

lemma pcs_comp_step_other: "u \<noteq> t \<Longrightarrow> pcs (comp_step prog t s) u = pcs s u"
  by (simp add: comp_step_def work_step_def acquire_def
      split: pc.splits work.splits option.splits sum.splits prod.splits)

lemma comps_comp_step_other: "u \<noteq> t \<Longrightarrow> comps (comp_step prog t s) ! u = comps s ! u"
  by (simp add: comp_step_def work_step_def acquire_def
      split: pc.splits work.splits option.splits sum.splits prod.splits)

lemma comp_step_Done: "pcs s t = Done eo \<Longrightarrow> comp_step prog t s = s"
  by (simp add: comp_step_def)

lemma comp_step_Unstarted: "pcs s t = Unstarted \<Longrightarrow> comp_step prog t s = s"
  by (simp add: comp_step_def)

lemma main_step_pcs:
  assumes "inv s" and "pcs s t \<noteq> Unstarted"
  shows "pcs (main_step s) t = pcs s t"
proof (cases "mpc s")
  case (M_run j)
  with invD(5) [OF assms(1)] have "pcs s j = Unstarted" by (simp add: main_inv_def)
  with assms(2) have "j \<noteq> t" by auto
  then show ?thesis by (simp add: main_step_def M_run)
next
  case (M_join j)
  then show ?thesis by (simp add: main_step_def split: pc.splits)
next
  case (M_check j f)
  then show ?thesis by (simp add: main_step_def)
next
  case (M_done f)
  then show ?thesis by (simp add: main_step_def)
qed

lemma results_of_status [simp]: "results_of (c\<lparr>status := v\<rparr>) = results_of c"
  by (simp add: results_of_def)

lemma terminal_comp_step:
  assumes "pc_status (pcs s t) \<noteq> 0"
  shows "pc_status (pcs (comp_step prog u s) t) = pc_status (pcs s t) \<and>
         comps (comp_step prog u s) ! t = comps s ! t"
proof (cases "u = t")
  case False
  then show ?thesis by (simp add: pcs_comp_step_other comps_comp_step_other)
next
  case True
  show ?thesis
  proof (cases "pcs s t" rule: pc_status.cases)
    case 1 then show ?thesis using True by (simp add: comp_step_def)
  next
    case 2 then show ?thesis using True by (simp add: comp_step_def)
  next
    case 3 then show ?thesis using True by (simp add: comp_step_def)
  next
    case (4 e) then show ?thesis using True by (simp add: comp_step_def)
  next
    case (5 e) then show ?thesis using True by (simp add: comp_step_def)
  next
    case (6 e) then show ?thesis using True by (simp add: comp_step_def)
  qed (use assms in simp_all)
qed

lemma terminal_step:
  assumes "inv s" and "pc_status (pcs s t) \<noteq> 0"
  shows "pc_status (pcs (step prog s x) t) = pc_status (pcs s t) \<and>
         comps (step prog s x) ! t = comps s ! t"
proof (cases x)
  case Main
  from assms(2) have "pcs s t \<noteq> Unstarted" by auto
  with Main show ?thesis by (simp add: main_step_pcs [OF assms(1)])
next
  case (Comp u)
  with terminal_comp_step [OF assms(2)] show ?thesis by simp
qed

lemma terminal_run:
  assumes "inv s" and "pc_status (pcs s t) \<noteq> 0"
  shows "pc_status (pcs (run prog sched s) t) = pc_status (pcs s t) \<and>
         comps (run prog sched s) ! t = comps s ! t"
  using assms
proof (induction sched arbitrary: s)
  case Nil
  show ?case by simp
next
  case (Cons x xs)
  from terminal_step [OF Cons.prems, of prog x] Cons.IH [OF inv_step [OF Cons.prems(1)], of prog x]
  show ?case by (simp add: Cons.prems)
qed

lemma finished_comp_step:
  assumes "finished (pcs s t)"
  shows "finished (pcs (comp_step prog u s) t) \<and>
         results_of (comps (comp_step prog u s) ! t) = results_of (comps s ! t)"
proof (cases "u = t")
  case False
  then show ?thesis using assms by (simp add: pcs_comp_step_other comps_comp_step_other)
next
  case True
  have upd: "results_of ((comps s)[t := (comps s ! t)\<lparr>status := v\<rparr>] ! t) = results_of (comps s ! t)" for v
    by (cases "t < length (comps s)") (simp_all add: list_update_beyond)
  show ?thesis
  proof (cases "pcs s t" rule: finished.cases)
    case (1 rv) then show ?thesis using True by (simp add: comp_step_def work_step_def)
  next
    case (2 e) then show ?thesis using True by (simp add: comp_step_def work_step_def)
  next
    case 3 then show ?thesis using True upd by (simp add: comp_step_def)
  next
    case (4 e) then show ?thesis using True upd by (simp add: comp_step_def)
  next
    case (5 eo) then show ?thesis using True by (simp add: comp_step_def)
  next
    case (6 eo) then show ?thesis using True by (simp add: comp_step_def)
  next
    case (7 eo) then show ?thesis using True by (simp add: comp_step_def)
  qed (use assms in simp_all)
qed

lemma finished_step:
  assumes "inv s" and "finished (pcs s t)"
  shows "finished (pcs (step prog s x) t) \<and>
         results_of (comps (step prog s x) ! t) = results_of (comps s ! t)"
proof (cases x)
  case Main
  from assms(2) have "pcs s t \<noteq> Unstarted" by auto
  with Main assms(2) show ?thesis by (simp add: main_step_pcs [OF assms(1)])
next
  case (Comp u)
  with finished_comp_step [OF assms(2)] show ?thesis by simp
qed

lemma finished_run:
  assumes "inv s" and "finished (pcs s t)"
  shows "finished (pcs (run prog sched s) t) \<and>
         results_of (comps (run prog sched s) ! t) = results_of (comps s ! t)"
  using assms
proof (induction sched arbitrary: s)
  case Nil
  then show ?case by simp
next
  case (Cons x xs)
  from finished_step [OF Cons.prems, of prog x]
    Cons.IH [OF inv_step [OF Cons.prems(1)], of prog x]
  show ?case by simp
qed

lemma pc_status_range: "pc_status p = 0 \<or> pc_status p = 1 \<or> pc_status p = 2"
  by (cases p rule: pc_status.cases) simp_all

lemma pc_status_after_ok: "pc_status p = 1 \<Longrightarrow> after_ok p"
  by (cases p rule: pc_status.cases) simp_all

lemma after_ok_finished: "after_ok p \<Longrightarrow> finished p"
  by (cases p rule: after_ok.cases) simp_all

lemma main_step_pcs_cases: "pcs (main_step s) t = pcs s t \<or> pcs (main_step s) t = W_enter"
  by (simp add: main_step_def split: mpc.splits pc.splits)

lemma enter_after_ok_comp:
  assumes "\<not> after_ok (pcs s t)" and "after_ok (pcs (comp_step prog t s) t)"
  shows "pcs s t = W_run (Return 0)"
proof (cases "pcs s t")
  case (W_run w)
  with assms show ?thesis
    by (cases w) (auto simp: comp_step_def work_step_def split: if_splits sum.splits)
next
  case (W_except e)
  with assms show ?thesis by (simp add: comp_step_def)
next
  case (W_finally eo)
  with assms show ?thesis by (cases eo) (simp_all add: comp_step_def)
next
  case (W_exit eo)
  with assms show ?thesis by (cases eo) (simp_all add: comp_step_def)
next
  case (Done eo)
  with assms show ?thesis by (cases eo) (simp_all add: comp_step_def)
qed (use assms in \<open>auto simp: comp_step_def split: option.splits if_splits sum.splits prod.splits\<close>)

lemma enter_after_ok:
  assumes "\<not> after_ok (pcs s t)" and "after_ok (pcs (step prog s x) t)"
  shows "pcs s t = W_run (Return 0)"
proof (cases x)
  case Main
  with assms main_step_pcs_cases [of s t] show ?thesis by auto
next
  case (Comp u)
  show ?thesis
  proof (cases "u = t")
    case True
    with Comp assms enter_after_ok_comp show ?thesis by simp
  next
    case False
    with Comp assms show ?thesis by (simp add: pcs_comp_step_other)
  qed
qed

lemma after_ok_history:
  assumes "after_ok (pcs (run prog sched s0) t)" and "\<not> after_ok (pcs s0 t)"
  shows "\<exists>xs ys. sched = xs @ ys \<and> pcs (run prog xs s0) t = W_run (Return 0)"
  using assms(1)
proof (induction sched rule: rev_induct)
  case Nil
  with assms(2) show ?case by simp
next
  case (snoc x xs)
  show ?case
  proof (cases "after_ok (pcs (run prog xs s0) t)")
    case True
    from snoc.IH [OF this] obtain as bs where "xs = as @ bs"
      and "pcs (run prog as s0) t = W_run (Return 0)" by blast
    then have "xs @ [x] = as @ (bs @ [x]) \<and> pcs (run prog as s0) t = W_run (Return 0)" by simp
    then show ?thesis by blast
  next
    case False
    from enter_after_ok [OF False] snoc.prems
    have "pcs (run prog xs s0) t = W_run (Return 0)" by (simp add: run_snoc)
    then show ?thesis by blast
  qed
qed


lemma pc_status_changes:
  assumes "pc_status (pcs (comp_step prog t s) t) \<noteq> pc_status (pcs s t)"
  shows "pcs s t = W_ok \<or> (\<exists>e. pcs s t = W_except e)"
proof (cases "pcs s t")
  case (W_run w)
  with assms show ?thesis
    by (cases w) (auto simp: comp_step_def work_step_def split: if_splits sum.splits)
next
  case (W_finally eo)
  with assms show ?thesis by (cases eo) (simp_all add: comp_step_def)
next
  case (W_exit eo)
  with assms show ?thesis by (cases eo) (simp_all add: comp_step_def)
qed (use assms in \<open>auto simp: comp_step_def split: option.splits if_splits sum.splits prod.splits\<close>)

lemma status_changes:
  assumes i: "inv s" and t: "t < length (comps s)"
    and c: "status (comps (step prog s x) ! t) \<noteq> status (comps s ! t)"
  shows "x = Comp t \<and> status (comps s ! t) = 0 \<and> (pcs s t = W_ok \<or> (\<exists>e. pcs s t = W_except e))"
proof -
  have i': "inv (step prog s x)" by (rule inv_step [OF i])
  have a: "status (comps s ! t) = pc_status (pcs s t)" using status_eq [OF invD(4) [OF i] t] .
  have b: "status (comps (step prog s x) ! t) = pc_status (pcs (step prog s x) t)"
    using status_eq [OF invD(4) [OF i'], of t] t by simp
  from a b c have n: "pc_status (pcs (step prog s x) t) \<noteq> pc_status (pcs s t)" by simp
  show ?thesis
  proof (cases x)
    case Main
    with n main_step_pcs_cases [of s t] main_step_pcs [OF i, of t] show ?thesis
      by (cases "pcs s t = Unstarted") auto
  next
    case (Comp u)
    show ?thesis
    proof (cases "u = t")
      case True
      with Comp n pc_status_changes [of prog t s] have "pcs s t = W_ok \<or> (\<exists>e. pcs s t = W_except e)"
        by simp
      with True Comp a show ?thesis by auto
    next
      case False
      with Comp n show ?thesis by (simp add: pcs_comp_step_other)
    qed
  qed
qed

lemma wrapper_except:
  assumes i: "inv s" and p: "pcs s t = W_except e"
  shows "status (comps (run prog [Comp t, Comp t, Comp t] s) ! t) = 2 \<and>
         pcs (run prog [Comp t, Comp t, Comp t] s) t = Done (Some e) \<and>
         waiters (run prog [Comp t, Comp t, Comp t] s) t = {} \<and>
         lock (run prog [Comp t, Comp t, Comp t] s) t = None"
proof -
  have t: "t < length (comps s)" using status_started [OF invD(4) [OF i], of t] p by simp
  have l: "lock s t = Some (t, 1)" using lockD2 [OF invD(1) [OF i], of t t] p by simp
  show ?thesis using t l by (simp add: comp_step_def p release_def)
qed

section \<open>The wrapper reaches its end\<close>

lemma wrapper_own_step:
  assumes "finished (pcs s t)"
  shows "finished (pcs (comp_step prog t s) t) \<and>
         wrapper_steps (pcs (comp_step prog t s) t) = wrapper_steps (pcs s t) - 1 \<and>
         final_status (pcs (comp_step prog t s) t) = final_status (pcs s t)"
proof (cases "pcs s t" rule: finished.cases)
  case (1 rv) then show ?thesis by (simp add: comp_step_def work_step_def)
next
  case (2 e) then show ?thesis by (simp add: comp_step_def work_step_def)
next
  case 3 then show ?thesis by (simp add: comp_step_def)
next
  case (4 e) then show ?thesis by (simp add: comp_step_def)
next
  case (5 eo) then show ?thesis by (cases eo) (simp_all add: comp_step_def)
next
  case (6 eo) then show ?thesis by (cases eo) (simp_all add: comp_step_def)
next
  case (7 eo) then show ?thesis by (simp add: comp_step_def)
qed (use assms in simp_all)

lemma wrapper_other_step:
  assumes "inv s" and "finished (pcs s t)" and "x \<noteq> Comp t"
  shows "pcs (step prog s x) t = pcs s t"
proof (cases x)
  case Main
  from assms(2) have "pcs s t \<noteq> Unstarted" by auto
  with Main show ?thesis by (simp add: main_step_pcs [OF assms(1)])
next
  case (Comp u)
  with assms(3) show ?thesis by (simp add: pcs_comp_step_other)
qed

lemma wrapper_steps_0:
  "finished p \<Longrightarrow> wrapper_steps p = 0 \<Longrightarrow> is_done p \<and> final_status p = pc_status p"
  by (cases p rule: finished.cases) simp_all

lemma wrapper_finishes:
  assumes "inv s" and "finished (pcs s t)" and "wrapper_steps (pcs s t) \<le> count_list sched (Comp t)"
  shows "is_done (pcs (run prog sched s) t) \<and>
         status (comps (run prog sched s) ! t) = final_status (pcs s t)"
  using assms
proof (induction sched arbitrary: s)
  case Nil
  then have z: "wrapper_steps (pcs s t) = 0" by simp
  from wrapper_steps_0 [OF Nil.prems(2) z]
  have d: "is_done (pcs s t)" and f: "final_status (pcs s t) = pc_status (pcs s t)" by simp_all
  from d have "pcs s t \<noteq> Unstarted" by auto
  then have "t < length (comps s)" by (rule status_started [OF invD(4) [OF Nil.prems(1)]])
  from status_eq [OF invD(4) [OF Nil.prems(1)] this] d f show ?case by simp
next
  case (Cons x xs)
  have i': "inv (step prog s x)" by (rule inv_step [OF Cons.prems(1)])
  show ?case
  proof (cases "x = Comp t")
    case True
    note o = wrapper_own_step [OF Cons.prems(2), of prog]
    from o Cons.prems(3) True
    have "wrapper_steps (pcs (step prog s x) t) \<le> count_list xs (Comp t)" by simp
    from Cons.IH [OF i' _ this] o True show ?thesis by simp
  next
    case False
    note e = wrapper_other_step [OF Cons.prems(1,2) False, of prog]
    from Cons.prems(3) False e
    have "wrapper_steps (pcs (step prog s x) t) \<le> count_list xs (Comp t)" by simp
    from Cons.IH [OF i' _ this] e Cons.prems(2) show ?thesis by simp
  qed
qed

section \<open>The driver's loops\<close>

lemma is_done_iff: "is_done p = (\<exists>eo. p = Done eo)"
  by (cases p) simp_all

lemma comp_step_idle: "is_done (pcs s u) \<or> pcs s u = Unstarted \<Longrightarrow> comp_step prog u s = s"
  by (auto simp: comp_step_def is_done_iff)

lemma comp_step_started:
  "pcs s u \<noteq> Unstarted \<Longrightarrow> pcs (comp_step prog u s) u \<noteq> Unstarted"
  by (simp add: comp_step_def work_step_def acquire_def
      split: pc.splits work.splits option.splits sum.splits prod.splits)

lemma count_failed_snoc:
  "i < length cs \<Longrightarrow>
   count_failed (take (Suc i) cs) = (if status (cs ! i) \<noteq> 1 then count_failed (take i cs) + 1
                                     else count_failed (take i cs))"
  by (simp add: count_failed_def take_Suc_conv_app_nth)

lemma join_inv_main_step:
  assumes j: "join_inv s"
  shows "join_inv (main_step s)"
proof (cases "mpc s")
  case (M_run i)
  with j have a: "i \<le> length (comps s)" "\<And>t. t < i \<Longrightarrow> pcs s t \<noteq> Unstarted"
    by (simp_all add: join_inv_def)
  show ?thesis
  proof (cases "i < length (comps s)")
    case True
    with a show ?thesis by (auto simp: join_inv_def main_step_def M_run less_Suc_eq)
  next
    case False
    with a have "i = length (comps s)" by simp
    with a show ?thesis by (simp add: join_inv_def main_step_def M_run)
  qed
next
  case (M_join i)
  with j have a: "i \<le> length (comps s)" "\<And>t. t < length (comps s) \<Longrightarrow> pcs s t \<noteq> Unstarted"
    "\<And>t. t < i \<Longrightarrow> is_done (pcs s t)"
    by (simp_all add: join_inv_def)
  show ?thesis
  proof (cases "i < length (comps s)")
    case True
    show ?thesis
    proof (cases "is_done (pcs s i)")
      case True
      then obtain eo where "pcs s i = Done eo" by (auto simp: is_done_iff)
      with \<open>i < length (comps s)\<close> a show ?thesis
        by (auto simp: join_inv_def main_step_def M_join less_Suc_eq)
    next
      case False
      then have "main_step s = s"
        using \<open>i < length (comps s)\<close> by (cases "pcs s i") (simp_all add: main_step_def M_join)
      with j show ?thesis by simp
    qed
  next
    case False
    with a have "i = length (comps s)" by simp
    with a show ?thesis by (simp add: join_inv_def main_step_def M_join count_failed_def)
  qed
next
  case (M_check i fail)
  with j have a: "i \<le> length (comps s)" "\<And>t. t < length (comps s) \<Longrightarrow> is_done (pcs s t)"
    "fail = count_failed (take i (comps s))"
    by (simp_all add: join_inv_def)
  show ?thesis
  proof (cases "i < length (comps s)")
    case True
    with a show ?thesis
      by (simp add: join_inv_def main_step_def M_check count_failed_snoc)
  next
    case False
    with a have "i = length (comps s)" by simp
    with a show ?thesis by (simp add: join_inv_def main_step_def M_check)
  qed
next
  case (M_done fail)
  with j show ?thesis by (simp add: main_step_def)
qed

lemma join_inv_comp_step:
  assumes i: "inv s" and j: "join_inv s"
  shows "join_inv (comp_step prog u s)"
proof (cases "is_done (pcs s u) \<or> pcs s u = Unstarted")
  case True
  with j show ?thesis by (simp add: comp_step_idle)
next
  case False
  then have u: "u < length (comps s)" using status_started [OF invD(4) [OF i], of u] by simp
  have st: "pcs (comp_step prog u s) t \<noteq> Unstarted" if "pcs s t \<noteq> Unstarted" for t
    using that comp_step_started [of s u prog] by (cases "t = u") (simp_all add: pcs_comp_step_other)
  have dn: "is_done (pcs (comp_step prog u s) t)" if "is_done (pcs s t)" for t
    using that False by (cases "t = u") (simp_all add: pcs_comp_step_other)
  show ?thesis
  proof (cases "mpc s")
    case (M_run k)
    with j st show ?thesis by (simp add: join_inv_def)
  next
    case (M_join k)
    with j st dn show ?thesis by (simp add: join_inv_def)
  next
    case (M_check k f)
    with j u False show ?thesis by (auto simp: join_inv_def)
  next
    case (M_done f)
    with j u False show ?thesis by (auto simp: join_inv_def)
  qed
qed

lemma join_inv_step: "inv s \<Longrightarrow> join_inv s \<Longrightarrow> join_inv (step prog s x)"
  by (cases x) (simp_all add: join_inv_main_step join_inv_comp_step)

lemma join_inv_run: "inv s \<Longrightarrow> join_inv s \<Longrightarrow> join_inv (run prog sched s)"
  by (induction sched arbitrary: s) (simp_all add: join_inv_step inv_step)

lemma join_inv_init: "join_inv (init w)"
  by (simp add: join_inv_def init_def)

lemma join_loop:
  assumes "mpc s = M_join i" and "i \<le> length (comps s)"
    and "\<And>t. t < length (comps s) \<Longrightarrow> is_done (pcs s t)"
    and "length (comps s) - i = k"
  shows "mpc (run prog (replicate (Suc k) Main) s) = M_check 0 0 \<and>
         comps (run prog (replicate (Suc k) Main) s) = comps s \<and>
         pcs (run prog (replicate (Suc k) Main) s) = pcs s"
  using assms
proof (induction k arbitrary: i s)
  case 0
  then have "i = length (comps s)" by simp
  with 0 show ?case by (simp add: main_step_def)
next
  case (Suc k)
  then have i: "i < length (comps s)" by simp
  with Suc.prems(3) obtain eo where d: "pcs s i = Done eo" by (auto simp: is_done_iff)
  let ?s = "main_step s"
  have s: "?s = s\<lparr>mpc := M_join (Suc i)\<rparr>"
    using Suc.prems(1) i d by (simp add: main_step_def)
  have "mpc (run prog (replicate (Suc k) Main) ?s) = M_check 0 0 \<and>
         comps (run prog (replicate (Suc k) Main) ?s) = comps ?s \<and>
         pcs (run prog (replicate (Suc k) Main) ?s) = pcs ?s"
    by (rule Suc.IH [of ?s "Suc i"]) (use Suc.prems i in \<open>simp_all add: s\<close>)
  then show ?case by (simp add: s)
qed

lemma count_failed_drop:
  "i < length cs \<Longrightarrow>
   count_failed (drop i cs) = (if status (cs ! i) \<noteq> 1 then 1 else 0) + count_failed (drop (Suc i) cs)"
  by (simp add: count_failed_def Cons_nth_drop_Suc [symmetric])

lemma check_loop:
  assumes "mpc s = M_check i f" and "i \<le> length (comps s)"
    and "length (comps s) - i = k"
  shows "mpc (run prog (replicate (Suc k) Main) s) = M_done (f + count_failed (drop i (comps s)))"
  using assms
proof (induction k arbitrary: i f s)
  case 0
  then have "i = length (comps s)" by simp
  with 0 show ?case by (simp add: main_step_def count_failed_def)
next
  case (Suc k)
  then have i: "i < length (comps s)" by simp
  let ?f = "if status (comps s ! i) \<noteq> 1 then f + 1 else f"
  let ?s = "main_step s"
  have s: "?s = s\<lparr>mpc := M_check (Suc i) ?f\<rparr>"
    using Suc.prems(1) i by (simp add: main_step_def)
  have "mpc (run prog (replicate (Suc k) Main) ?s) =
          M_done (?f + count_failed (drop (Suc i) (comps ?s)))"
    by (rule Suc.IH [of ?s "Suc i" ?f]) (use Suc.prems i in \<open>simp_all add: s\<close>)
  then show ?case using count_failed_drop [OF i] by (simp add: s)
qed

lemma main_finishes:
  assumes i: "inv s" and j: "join_inv s"
    and d: "\<And>t. t < length (comps s) \<Longrightarrow> is_done (pcs s t)"
  shows "\<exists>m. mpc (run prog (replicate m Main) s) = M_done (count_failed (comps s))"
proof -
  let ?n = "length (comps s)"
  have from_check: "\<exists>m. mpc (run prog (replicate m Main) s') = M_done (count_failed (comps s))"
    if "mpc s' = M_check k f" "k \<le> ?n" "comps s' = comps s" "f = count_failed (take k (comps s))"
    for s' k f
  proof -
    from check_loop [of s' k f "?n - k" prog] that
    have "mpc (run prog (replicate (Suc (?n - k)) Main) s') =
            M_done (count_failed (take k (comps s)) + count_failed (drop k (comps s)))"
      by simp
    also have "count_failed (take k (comps s)) + count_failed (drop k (comps s)) = count_failed (comps s)"
      unfolding count_failed_def
      by (metis append_take_drop_id filter_append length_append)
    finally show ?thesis by blast
  qed
  have from_join: "\<exists>m. mpc (run prog (replicate m Main) s') = M_done (count_failed (comps s))"
    if "mpc s' = M_join k" "k \<le> ?n" "comps s' = comps s" "pcs s' = pcs s" for s' k
  proof -
    from join_loop [of s' k "?n - k" prog] that d
    have a: "mpc (run prog (replicate (Suc (?n - k)) Main) s') = M_check 0 0"
      "comps (run prog (replicate (Suc (?n - k)) Main) s') = comps s"
      by simp_all
    from from_check [OF a(1) _ a(2)] obtain m
      where "mpc (run prog (replicate m Main) (run prog (replicate (Suc (?n - k)) Main) s')) =
               M_done (count_failed (comps s))"
      by (auto simp: count_failed_def)
    moreover have "run prog (replicate (Suc (?n - k) + m) Main) s' =
        run prog (replicate m Main) (run prog (replicate (Suc (?n - k)) Main) s')"
      by (simp only: replicate_add run_append)
    ultimately have "mpc (run prog (replicate (Suc (?n - k) + m) Main) s') = M_done (count_failed (comps s))"
      by (simp only:)
    then show ?thesis by blast
  qed
  show ?thesis
  proof (cases "mpc s")
    case (M_run k)
    have "k = ?n"
    proof (rule ccontr)
      assume "k \<noteq> ?n"
      with j M_run have "k < ?n" by (simp add: join_inv_def)
      with invD(5) [OF i] M_run d [of k] show False by (simp add: main_inv_def)
    qed
    with M_run have s1: "main_step s = s\<lparr>mpc := M_join 0\<rparr>" by (simp add: main_step_def)
    from from_join [of "main_step s" 0] obtain m
      where "mpc (run prog (replicate m Main) (main_step s)) = M_done (count_failed (comps s))"
      by (auto simp: s1)
    then have "mpc (run prog (replicate (Suc m) Main) s) = M_done (count_failed (comps s))" by simp
    then show ?thesis by blast
  next
    case (M_join k)
    with j from_join [of s k] show ?thesis by (simp add: join_inv_def)
  next
    case (M_check k f)
    with j from_check [of s k f] show ?thesis by (simp add: join_inv_def)
  next
    case (M_done f)
    with j have "mpc (run prog (replicate 0 Main) s) = M_done (count_failed (comps s))"
      by (simp add: join_inv_def)
    then show ?thesis by blast
  qed
qed

lemma start_loop:
  "count_list sched Main = n \<Longrightarrow> n \<le> length (component_list w) \<Longrightarrow>
   mpc (run prog sched (init w)) = M_run n"
proof (induction sched arbitrary: n rule: rev_induct)
  case Nil
  then show ?case by (simp add: init_def)
next
  case (snoc x xs)
  show ?case
  proof (cases x)
    case Main
    with snoc.prems obtain k where k: "n = Suc k" "count_list xs Main = k" by simp
    with snoc.prems(2) have "k \<le> length (component_list w)" by simp
    from snoc.IH [OF k(2) this] have "mpc (run prog xs (init w)) = M_run k" .
    moreover have "length (comps (run prog xs (init w))) = length (component_list w)"
      by (simp add: init_def)
    ultimately show ?thesis using k snoc.prems(2) Main by (simp add: run_snoc main_step_def)
  next
    case (Comp t)
    with snoc.prems have "count_list xs Main = n" by simp
    from snoc.IH [OF this snoc.prems(2)] Comp show ?thesis by (simp add: run_snoc)
  qed
qed

lemma start_loop_end:
  "count_list sched Main = Suc (length (component_list w)) \<Longrightarrow>
   mpc (run prog sched (init w)) = M_join 0"
proof (induction sched rule: rev_induct)
  case Nil
  then show ?case by simp
next
  case (snoc x xs)
  show ?case
  proof (cases x)
    case Main
    with snoc.prems have "count_list xs Main = length (component_list w)" by simp
    from start_loop [OF this order_refl]
    have "mpc (run prog xs (init w)) = M_run (length (component_list w))" .
    moreover have "length (comps (run prog xs (init w))) = length (component_list w)"
      by (simp add: init_def)
    ultimately show ?thesis using Main by (simp add: run_snoc main_step_def)
  next
    case (Comp t)
    with snoc.prems have "count_list xs Main = Suc (length (component_list w))" by simp
    from snoc.IH [OF this] Comp show ?thesis by (simp add: run_snoc)
  qed
qed

section \<open>Released callers finish their fetch\<close>

lemma F_check_step:
  "pcs s t = F_check b k \<Longrightarrow> comp_step prog t s = set_pc t (fetch_end (fetch_result s b) k) s"
  by (cases "fetch_result s b") (simp_all add: comp_step_def)








section \<open>Running a body\<close>

lemma as_str_VStr [simp]: "as_str what (VStr s) k = k s"
  by (simp add: as_str_def)

lemma exec_global:
  assumes a: "results c = params c"
    and mi: "params_of c ''ModelInterface'' = Some (VStr mi)"
    and db: "params_of c ''DBXMLlib'' = Some (VStr db)"
    and i: "with_default (params_of c ''inputdir'') ''./input-data'' = Some inputdir"
    and r: "with_default (params_of c ''rgnconfig'') ''rgn14'' = Some rgnconfig"
  shows "exec (GlobalParams_run env) f c =
     (c\<lparr>dicts := (dicts c)(params c := (params_of c)
          (''ModelInterface'' \<mapsto> VStr (abspath env mi None),
           ''DBXMLlib'' \<mapsto> VStr (abspath env db None),
           ''inputdir'' \<mapsto> VStr (abspath env inputdir (Some (getcwd env))),
           ''rgnconfig'' \<mapsto> VStr (abspath env rgnconfig
               (Some (abspath env inputdir (Some (getcwd env)))))))\<rparr>, Inr 0)"
proof -
  from i have i': "params_of c ''inputdir'' = None \<and> inputdir = ''./input-data'' \<or>
      params_of c ''inputdir'' = Some (VStr inputdir)"
    by (auto simp: with_default_def split: option.splits val.splits)
  from r have r': "params_of c ''rgnconfig'' = None \<and> rgnconfig = ''rgn14'' \<or>
      params_of c ''rgnconfig'' = Some (VStr rgnconfig)"
    by (auto simp: with_default_def split: option.splits val.splits)
  from mi db a have m: "dicts c (params c) ''ModelInterface'' = Some (VStr mi)"
    "dicts c (params c) ''DBXMLlib'' = Some (VStr db)" by (simp_all add: params_of_def)
  from i' r' show ?thesis
    by (elim disjE conjE)
       (simp_all add: GlobalParams_run_def result_item_def result_item_default_def getitem_def
          results_of_def params_of_def set_result_def a m)
qed

lemma general_component_eq:
  "general_component =
     \<lparr>cls = GlobalParamsComponent, status = 0, results = ParamsDict, params = ParamsDict,
      dicts = (\<lambda>r. Map.empty)(ResultsDict := [''changed'' \<mapsto> VInt 1],
                ParamsDict := [''ModelInterface'' \<mapsto> VStr ''mi.jar'', ''DBXMLlib'' \<mapsto> VStr ''/opt/dbxml'']),
      clobber = Some True\<rparr>"
  by (simp add: general_component_def general_section_def parse_defs)

lemma general_component_facts:
  "results general_component = params general_component"
  "params_of general_component ''ModelInterface'' = Some (VStr ''mi.jar'')"
  "params_of general_component ''DBXMLlib'' = Some (VStr ''/opt/dbxml'')"
  "with_default (params_of general_component ''inputdir'') ''./input-data'' = Some ''./input-data''"
  "with_default (params_of general_component ''rgnconfig'') ''rgn14'' = Some ''rgn14''"
  "results_of general_component ''ModelInterface'' = Some (VStr ''mi.jar'')"
  "status general_component = 0"
  by (simp_all add: general_component_eq params_of_def results_of_def with_default_def)

lemma global_component_facts:
  "results (global_component [(''DBXMLlib'', ''/opt/dbxml'')]) =
     params (global_component [(''DBXMLlib'', ''/opt/dbxml'')])"
  "params_of (global_component [(''DBXMLlib'', ''/opt/dbxml'')]) ''ModelInterface'' = None"
  "results (global_component [(''ModelInterface'', ''mi.jar'')]) =
     params (global_component [(''ModelInterface'', ''mi.jar'')])"
  "params_of (global_component [(''ModelInterface'', ''mi.jar'')]) ''ModelInterface'' =
     Some (VStr ''mi.jar'')"
  "params_of (global_component [(''ModelInterface'', ''mi.jar'')]) ''DBXMLlib'' = None"
  by (simp_all add: global_component_def parse_defs)

section \<open>Concrete executions\<close>

text \<open>A producer and a consumer: the consumer waits, the producer finishes and notifies.\<close>

lemmas demo_defs = producer_def consumer_def demo_prog_def demo_world_def sched_wait_def
  sched_notify_def

lemma demo_wait:
  "pcs (run demo_prog sched_wait (init demo_world)) 0 = W_run (Return 0)"
  "results_of (comps (run demo_prog sched_wait (init demo_world)) ! 0) =
     [''changed'' \<mapsto> VInt 1, ''dbxml'' \<mapsto> VStr ''/out/db'']"
  "pcs (run demo_prog sched_wait (init demo_world)) 1 = F_waiting 0 1 consumer_k"
  "waiters (run demo_prog sched_wait (init demo_world)) 0 = {1}"
  by (simp_all add: demo_defs parse_defs exec_defs)

lemma demo_notify:
  "pcs (run demo_prog (sched_wait @ sched_notify) (init demo_world)) 1 = F_check 0 consumer_k"
  "fetch_result (run demo_prog (sched_wait @ sched_notify) (init demo_world)) 0 =
     Inr [''changed'' \<mapsto> VInt 1, ''dbxml'' \<mapsto> VStr ''/out/db'']"
  by (simp_all add: demo_defs parse_defs exec_defs)

text \<open>
  A failing producer, by an exception or by the code 3: after \<open>sched_fail\<close> its thread has
  ended, and the consumer is at the end of its \<^verbatim>\<open>fetch\<close>.
\<close>

lemma fail_raise_run:
  "pcs (run fail_raise sched_fail (init demo_world)) 0 =
     Done (Some (IOError ''GcamComponent: File /g/gcam.exe does not exist!''))"
  "pcs (run fail_raise sched_fail (init demo_world)) 1 = F_check 0 consumer_k"
  "status (comps (run fail_raise sched_fail (init demo_world)) ! 0) = 2"
  "fetch_result (run fail_raise sched_fail (init demo_world)) 0 =
     Inl (RuntimeError (class_repr GcamComponent @ '': wait() returned with non-success status!''))"
  by (simp_all add: fail_raise_def sched_fail_def demo_defs parse_defs exec_defs)

lemma fail_code_run:
  "pcs (run fail_code sched_fail (init demo_world)) 0 =
     Done (Some (RuntimeError (class_repr GcamComponent @ '':  run_component returned error code 3'')))"
  "fetch_result (run fail_code sched_fail (init demo_world)) 0 =
     Inl (RuntimeError (class_repr GcamComponent @ '': wait() returned with non-success status!''))"
  by (simp_all add: fail_code_def sched_fail_def demo_defs parse_defs exec_defs str_int_def)

lemma fail_same:
  "comps (run fail_raise sched_fail (init demo_world)) ! 0 =
     comps (run fail_code sched_fail (init demo_world)) ! 0"
  "pcs (run fail_code sched_fail (init demo_world)) 1 = F_check 0 consumer_k"
  "cls (comps (run fail_raise sched_fail (init demo_world)) ! 0) = GcamComponent"
  "pcs (step fail_raise (run fail_raise sched_fail (init demo_world)) (Comp 1)) 1 =
     W_except (RuntimeError (class_repr GcamComponent @ '': wait() returned with non-success status!''))"
  "pcs (step fail_code (run fail_code sched_fail (init demo_world)) (Comp 1)) 1 =
     W_except (RuntimeError (class_repr GcamComponent @ '': wait() returned with non-success status!''))"
  by (simp_all add: fail_raise_def fail_code_def sched_fail_def demo_defs parse_defs exec_defs
      str_int_def)

lemma fail_start:
  "pcs (run fail_raise [Main, Main, Main, Comp 0] (init demo_world)) 0 =
     W_run (Raise (IOError ''GcamComponent: File /g/gcam.exe does not exist!''))"
  by (simp add: fail_raise_def demo_defs parse_defs exec_defs)

lemma join_blocked:
  "pcs (run fail_raise [Main, Comp 0, Main, Comp 1, Main] (init demo_world)) 0 = W_run (fail_raise 0)"
  by (simp add: fail_raise_def demo_defs parse_defs exec_defs)

section \<open>The capability table: registration and lookup\<close>

text \<open>
  Claim C4, as stated: registering a second task under a capability name that is already
  bound fails with \<open>DuplicateCapability\<close> and leaves the registry unchanged.  The
  constructors assign \<^verbatim>\<open>cap_tbl[name] = self\<close> without looking at the table: with
  \<^verbatim>\<open>gcam-core\<close> bound to component 0, constructing a second \<^verbatim>\<open>GcamComponent\<close> as component 1
  returns normally and the name is then bound to component 1.
\<close>

theorem C4_counterexample:
  "snd (new_component GcamComponent 1 (Map.empty(''gcam-core'' \<mapsto> 0))) ''gcam-core'' = Some 1 \<and>
   capability_table (gcam_parse (\<lambda>v. True) [(GcamComponent, []), (GcamComponent, [])]) ''gcam-core''
     = Some 1"
  by (simp add: parse_defs)

text \<open>
  Claim C4, amended: registering a task under a capability name always succeeds and binds
  the name to the new task, whether or not the name was bound before; every other binding is
  left as it was.  Hence after parsing, a name is bound to the last component of the
  configuration whose class provides it.
\<close>

theorem C4_registration_overwrites:
  "(capability c = Some n \<longrightarrow> snd (new_component c self tbl) = tbl(n \<mapsto> self)) \<and>
   (capability_table (gcam_parse ptf secs) n = Some i \<longrightarrow>
      i < length secs \<and> capability (fst (secs ! i)) = Some n \<and>
      (\<forall>j. i < j \<and> j < length secs \<longrightarrow> capability (fst (secs ! j)) \<noteq> Some n))"
proof (intro conjI impI)
  assume "capability c = Some n"
  then show "snd (new_component c self tbl) = tbl(n \<mapsto> self)"
    by (simp add: new_component_tbl)
next
  assume a: "capability_table (gcam_parse ptf secs) n = Some i"
  then have "capability_table (parsed secs) n = Some i" by (simp add: gcam_parse_tbl)
  from parsed_tbl_range [OF this]
  show "i < length secs" and "capability (fst (secs ! i)) = Some n"
    and "\<forall>j. i < j \<and> j < length secs \<longrightarrow> capability (fst (secs ! j)) \<noteq> Some n"
    by simp_all
qed

theorem C4_registration_overwrites_witness:
  "capability GcamComponent = Some ''gcam-core'' \<and>
   snd (new_component GcamComponent 1 (Map.empty(''gcam-core'' \<mapsto> 0)))
     = (Map.empty(''gcam-core'' \<mapsto> 0))(''gcam-core'' \<mapsto> 1) \<and>
   capability_table (gcam_parse (\<lambda>v. True) [(GcamComponent, []), (GcamComponent, [])]) ''gcam-core''
     = Some 1 \<and>
   (1::nat) < length [(GcamComponent, []), (GcamComponent, [])] \<and>
   capability (fst ([(GcamComponent, []), (GcamComponent, [])] ! 1)) = Some ''gcam-core''"
  using C4_registration_overwrites [of GcamComponent "''gcam-core''" 1
      "Map.empty(''gcam-core'' \<mapsto> 0)" "\<lambda>v. True" "[(GcamComponent, []), (GcamComponent, [])]" 1]
  by (simp add: parse_defs)

text \<open>
  Claim C5: in every state of every execution that starts from a parsed configuration, looking
  up a capability name that no section of the configuration registered raises \<^verbatim>\<open>KeyError\<close>
  (the error the specification calls \<open>UnknownCapability\<close>), and a body that evaluates
  \<^verbatim>\<open>self.cap_tbl[name].fetch()\<close> for such a name goes straight to the wrapper's exception
  handler: \<^verbatim>\<open>fetch\<close> is never entered, no lock is touched and nothing is waited for.  Looking
  up a registered name returns a component whose class provides it.
\<close>

theorem C5_resolve:
  "let w = gcam_parse ptf secs; s = run prog sched (init w) in
     (Some n \<notin> set (map (\<lambda>sec. capability (fst sec)) secs) \<longrightarrow>
        cap_tbl_lookup (cap s) n = Inl (KeyError n) \<and>
        (pcs s t = W_run (Fetch n k) \<longrightarrow>
           comp_step prog t s = set_pc t (W_except (KeyError n)) s)) \<and>
     (Some n \<in> set (map (\<lambda>sec. capability (fst sec)) secs) \<longrightarrow>
        (\<exists>i. cap_tbl_lookup (cap s) n = Inr i \<and> i < length (component_list w) \<and>
             capability (cls (component_list w ! i)) = Some n))"
proof -
  define w where "w = gcam_parse ptf secs"
  define s where "s = run prog sched (init w)"
  have c: "cap s = capability_table (parsed secs)"
    by (simp add: s_def w_def cap_run init_def gcam_parse_tbl)
  have 1: "cap_tbl_lookup (cap s) n = Inl (KeyError n)"
    and 2: "pcs s t = W_run (Fetch n k) \<Longrightarrow> comp_step prog t s = set_pc t (W_except (KeyError n)) s"
    if "Some n \<notin> set (map (\<lambda>sec. capability (fst sec)) secs)"
  proof -
    have none: "cap s n = None" using that by (simp add: c parsed_tbl_None)
    then show "cap_tbl_lookup (cap s) n = Inl (KeyError n)" by (simp add: cap_tbl_lookup_def)
    assume "pcs s t = W_run (Fetch n k)"
    with none show "comp_step prog t s = set_pc t (W_except (KeyError n)) s"
      by (simp add: comp_step_def work_step_def cap_tbl_lookup_def)
  qed
  have 3: "\<exists>i. cap_tbl_lookup (cap s) n = Inr i \<and> i < length (component_list w) \<and>
             capability (cls (component_list w ! i)) = Some n"
    if "Some n \<in> set (map (\<lambda>sec. capability (fst sec)) secs)"
  proof -
    have "cap s n \<noteq> None" using that by (simp add: c parsed_tbl_None)
    then obtain i where i: "capability_table (parsed secs) n = Some i" by (auto simp: c)
    from parsed_tbl_range [OF i] have "i < length secs" and "capability (fst (secs ! i)) = Some n"
      by simp_all
    then show ?thesis using i
      by (simp add: c cap_tbl_lookup_def w_def gcam_parse_length gcam_parse_cls)
  qed
  from 1 2 3 show ?thesis unfolding Let_def w_def [symmetric] s_def [symmetric] by blast
qed

theorem C5_resolve_witness:
  "Some ''y'' \<notin> set (map (\<lambda>sec. capability (fst sec)) [(GcamComponent, [])]) \<and>
   cap_tbl_lookup (cap (run (\<lambda>t. Fetch ''y'' (\<lambda>d. Return 0)) [Main, Comp 0]
       (init (gcam_parse (\<lambda>v. True) [(GcamComponent, [])])))) ''y'' = Inl (KeyError ''y'') \<and>
   pcs (run (\<lambda>t. Fetch ''y'' (\<lambda>d. Return 0)) [Main, Comp 0]
       (init (gcam_parse (\<lambda>v. True) [(GcamComponent, [])]))) 0 = W_run (Fetch ''y'' (\<lambda>d. Return 0)) \<and>
   pcs (comp_step (\<lambda>t. Fetch ''y'' (\<lambda>d. Return 0)) 0 (run (\<lambda>t. Fetch ''y'' (\<lambda>d. Return 0)) [Main, Comp 0]
       (init (gcam_parse (\<lambda>v. True) [(GcamComponent, [])])))) 0 = W_except (KeyError ''y'') \<and>
   Some ''gcam-core'' \<in> set (map (\<lambda>sec. capability (fst sec)) [(GcamComponent, [])]) \<and>
   cap_tbl_lookup (cap (run (\<lambda>t. Fetch ''y'' (\<lambda>d. Return 0)) [Main, Comp 0]
       (init (gcam_parse (\<lambda>v. True) [(GcamComponent, [])])))) ''gcam-core'' = Inr 0 \<and>
   capability (cls (component_list (gcam_parse (\<lambda>v. True) [(GcamComponent, [])]) ! 0))
     = Some ''gcam-core''"
  using C5_resolve [where n = "''gcam-core''" and secs = "[(GcamComponent, [])]" and ptf = "\<lambda>v. True"
      and prog = "\<lambda>t. Fetch ''y'' (\<lambda>d. Return 0)" and sched = "[Main, Comp 0]"]
    C5_resolve [where n = "''y''" and secs = "[(GcamComponent, [])]" and ptf = "\<lambda>v. True"
      and prog = "\<lambda>t. Fetch ''y'' (\<lambda>d. Return 0)" and sched = "[Main, Comp 0]" and t = 0
      and k = "\<lambda>d. Return 0"]
  by (simp add: parse_defs exec_defs)

section \<open>Fetching a result\<close>

text \<open>
  Claim C1, as stated: whenever \<^verbatim>\<open>fetch()\<close> returns normally, the task is in the state
  Succeeded and the returned map is the fully populated result the work function wrote; no
  caller observes a terminal state without also being able to read the corresponding result
  or error.  The last part fails for the error: a caller that finds the task Failed gets
  \<^verbatim>\<open>RuntimeError("%s: wait() returned with non-success status!" % self.__class__)\<close>, and the
  failed component is the same whatever the error was.  Below, a producer that raised
  \<^verbatim>\<open>IOError\<close> and a producer that returned the code 3: the consumer at the end of its
  \<^verbatim>\<open>fetch\<close> finds status 2 and the same component in both executions, and its next step takes
  it to the same handler with the same \<^verbatim>\<open>RuntimeError\<close>.
\<close>

theorem C1_counterexample:
  "pcs (run fail_raise sched_fail (init demo_world)) 0 =
     Done (Some (IOError ''GcamComponent: File /g/gcam.exe does not exist!'')) \<and>
   pcs (run fail_code sched_fail (init demo_world)) 0 =
     Done (Some (RuntimeError (class_repr GcamComponent @ '':  run_component returned error code 3''))) \<and>
   pcs (run fail_raise sched_fail (init demo_world)) 1 = F_check 0 consumer_k \<and>
   pcs (run fail_code sched_fail (init demo_world)) 1 = F_check 0 consumer_k \<and>
   status (comps (run fail_raise sched_fail (init demo_world)) ! 0) = 2 \<and>
   comps (run fail_raise sched_fail (init demo_world)) ! 0 =
     comps (run fail_code sched_fail (init demo_world)) ! 0 \<and>
   pcs (step fail_raise (run fail_raise sched_fail (init demo_world)) (Comp 1)) 1 =
     W_except (RuntimeError (class_repr GcamComponent @ '': wait() returned with non-success status!'')) \<and>
   pcs (step fail_code (run fail_code sched_fail (init demo_world)) (Comp 1)) 1 =
     pcs (step fail_raise (run fail_raise sched_fail (init demo_world)) (Comp 1)) 1"
  using fail_raise_run fail_code_run fail_same by simp

text \<open>
  Claim C1, amended: no caller leaves the \<^verbatim>\<open>with\<close> block of \<^verbatim>\<open>fetch\<close> of a task whose status is
  still 0; a caller that then finds the status 1 receives the result map, which is the map the
  work function had written when it returned 0; a caller that finds any other status gets
  \<^verbatim>\<open>fetch\<close>'s own \<^verbatim>\<open>RuntimeError\<close>, which names the class of the task and not the original
  error.

  In every execution from a parsed configuration: a caller that has left the \<^verbatim>\<open>with\<close> block of
  \<^verbatim>\<open>fetch\<close> of component \<open>b\<close> (control points \<open>F_exit\<close>, \<open>F_check\<close>) finds the status of \<open>b\<close> to
  be 1 or 2, never 0.  The step that ends its \<^verbatim>\<open>fetch\<close> changes no component.  If the status
  is 1, that step hands the results of \<open>b\<close> to the caller's continuation \<open>k\<close>, and there is an
  earlier moment of this execution at which \<^verbatim>\<open>run_component\<close> of \<open>b\<close> was returning 0 and the
  results of \<open>b\<close> were exactly this map.  If the status is not 1, that step takes the caller
  into its wrapper's handler with the \<^verbatim>\<open>RuntimeError\<close> of \<^verbatim>\<open>fetch\<close>.  And every caller that ends
  a \<^verbatim>\<open>fetch\<close> of \<open>b\<close> at any later moment gets the same map, or the same error.
\<close>

theorem C1_fetch_returns_published_result:
  "let s0 = init (gcam_parse ptf secs); s = run prog sched s0 in
   (pcs s t = F_exit b k \<or> pcs s t = F_check b k \<longrightarrow>
      status (comps s ! b) = 1 \<or> status (comps s ! b) = 2) \<and>
   (pcs s t = F_check b k \<longrightarrow>
      comps (step prog s (Comp t)) = comps s \<and>
      (status (comps s ! b) = 1 \<longrightarrow>
         pcs (step prog s (Comp t)) t = W_run (k (results_of (comps s ! b))) \<and>
         (\<exists>xs ys. sched = xs @ ys \<and> pcs (run prog xs s0) b = W_run (Return 0) \<and>
                  results_of (comps s ! b) = results_of (comps (run prog xs s0) ! b))) \<and>
      (status (comps s ! b) \<noteq> 1 \<longrightarrow>
         pcs (step prog s (Comp t)) t =
           W_except (RuntimeError (class_repr (cls (comps s ! b)) @
                       '': wait() returned with non-success status!''))) \<and>
      (\<forall>sched' t' k'. pcs (run prog sched' s) t' = F_check b k' \<longrightarrow>
         pcs (step prog (run prog sched' s) (Comp t')) t' =
           (if status (comps s ! b) = 1 then W_run (k' (results_of (comps s ! b)))
            else W_except (RuntimeError (class_repr (cls (comps s ! b)) @
                             '': wait() returned with non-success status!'')))))"
proof -
  define s0 where "s0 = init (gcam_parse ptf secs)"
  define s where "s = run prog sched s0"
  have i0: "inv s0" unfolding s0_def by (rule inv_init)
  have i: "inv s" unfolding s_def by (rule inv_run [OF i0])
  note iv = invD [OF i]
  have tm: "status (comps s ! b) = pc_status (pcs s b) \<and> pc_status (pcs s b) \<noteq> 0"
    if "pcs s t = F_exit b k \<or> pcs s t = F_check b k"
  proof -
    from that have "fetching (pcs s t) = Some b" by auto
    then have "b < length (comps s)" by (rule fetchD0 [OF iv(3)])
    with status_eq [OF iv(4)] fetchD2 [OF iv(3) that] show ?thesis by simp
  qed
  have 1: "status (comps s ! b) = 1 \<or> status (comps s ! b) = 2"
    if "pcs s t = F_exit b k \<or> pcs s t = F_check b k"
    using tm [OF that] pc_status_range [of "pcs s b"] by auto
  have ends: "pcs (step prog z (Comp u)) u =
           (if status (comps z ! b) = 1 then W_run (k' (results_of (comps z ! b)))
            else W_except (RuntimeError (class_repr (cls (comps z ! b)) @
                             '': wait() returned with non-success status!''))) \<and>
         comps (step prog z (Comp u)) = comps z"
    if "pcs z u = F_check b k'" for z u k'
    using F_check_step [OF that, of prog] by (simp add: fetch_result_def)
  have 2: "comps (step prog s (Comp t)) = comps s \<and>
      (status (comps s ! b) = 1 \<longrightarrow>
         pcs (step prog s (Comp t)) t = W_run (k (results_of (comps s ! b))) \<and>
         (\<exists>xs ys. sched = xs @ ys \<and> pcs (run prog xs s0) b = W_run (Return 0) \<and>
                  results_of (comps s ! b) = results_of (comps (run prog xs s0) ! b))) \<and>
      (status (comps s ! b) \<noteq> 1 \<longrightarrow>
         pcs (step prog s (Comp t)) t =
           W_except (RuntimeError (class_repr (cls (comps s ! b)) @
                       '': wait() returned with non-success status!''))) \<and>
      (\<forall>sched' t' k'. pcs (run prog sched' s) t' = F_check b k' \<longrightarrow>
         pcs (step prog (run prog sched' s) (Comp t')) t' =
           (if status (comps s ! b) = 1 then W_run (k' (results_of (comps s ! b)))
            else W_except (RuntimeError (class_repr (cls (comps s ! b)) @
                             '': wait() returned with non-success status!''))))"
    if c: "pcs s t = F_check b k"
  proof -
    from tm c have st: "status (comps s ! b) = pc_status (pcs s b)" "pc_status (pcs s b) \<noteq> 0"
      by simp_all
    note e = ends [OF c]
    have h: "\<exists>xs ys. sched = xs @ ys \<and> pcs (run prog xs s0) b = W_run (Return 0) \<and>
                  results_of (comps s ! b) = results_of (comps (run prog xs s0) ! b)"
      if s1: "status (comps s ! b) = 1"
    proof -
      from s1 st have ok: "after_ok (pcs s b)" by (simp add: pc_status_after_ok)
      have "\<not> after_ok (pcs s0 b)" by (simp add: s0_def init_def)
      from after_ok_history [OF ok [unfolded s_def] this]
      obtain xs ys where xy: "sched = xs @ ys" and p: "pcs (run prog xs s0) b = W_run (Return 0)"
        by blast
      have "inv (run prog xs s0)" by (rule inv_run [OF i0])
      from finished_run [OF this, of b prog ys] p
      have "results_of (comps s ! b) = results_of (comps (run prog xs s0) ! b)"
        by (simp add: s_def xy run_append)
      with xy p show ?thesis by blast
    qed
    have l: "pcs (step prog (run prog sched' s) (Comp t')) t' =
           (if status (comps s ! b) = 1 then W_run (k' (results_of (comps s ! b)))
            else W_except (RuntimeError (class_repr (cls (comps s ! b)) @
                             '': wait() returned with non-success status!'')))"
      if "pcs (run prog sched' s) t' = F_check b k'" for sched' t' k'
    proof -
      from terminal_run [OF i st(2), of prog sched']
      have "comps (run prog sched' s) ! b = comps s ! b" by simp
      with ends [OF that] show ?thesis by simp
    qed
    from e h l show ?thesis by simp
  qed
  from 1 2 show ?thesis unfolding Let_def s0_def [symmetric] s_def [symmetric] by blast
qed

theorem C1_fetch_returns_published_result_witness:
  "pcs (run demo_prog (sched_wait @ sched_notify) (init demo_world)) 1 = F_check 0 consumer_k \<and>
   status (comps (run demo_prog (sched_wait @ sched_notify) (init demo_world)) ! 0) = 1 \<and>
   pcs (step demo_prog (run demo_prog (sched_wait @ sched_notify) (init demo_world)) (Comp 1)) 1 =
     W_run (consumer_k [''changed'' \<mapsto> VInt 1, ''dbxml'' \<mapsto> VStr ''/out/db'']) \<and>
   pcs (run demo_prog sched_wait (init demo_world)) 0 = W_run (Return 0) \<and>
   results_of (comps (run demo_prog sched_wait (init demo_world)) ! 0) =
     [''changed'' \<mapsto> VInt 1, ''dbxml'' \<mapsto> VStr ''/out/db''] \<and>
   pcs (run fail_raise sched_fail (init demo_world)) 1 = F_check 0 consumer_k \<and>
   status (comps (run fail_raise sched_fail (init demo_world)) ! 0) = 2 \<and>
   pcs (step fail_raise (run fail_raise sched_fail (init demo_world)) (Comp 1)) 1 =
     W_except (RuntimeError (class_repr GcamComponent @ '': wait() returned with non-success status!''))"
proof -
  note t = C1_fetch_returns_published_result [where ptf = "\<lambda>v. True"
      and secs = "[(GcamComponent, []), (WaterDisaggregationComponent, [])]"
      and prog = demo_prog and sched = "sched_wait @ sched_notify" and t = 1 and b = 0
      and k = consumer_k, unfolded Let_def, folded demo_world_def]
  have r: "results_of (comps (run demo_prog (sched_wait @ sched_notify) (init demo_world)) ! 0) =
      [''changed'' \<mapsto> VInt 1, ''dbxml'' \<mapsto> VStr ''/out/db'']"
    using demo_notify(2) by (simp add: fetch_result_def split: if_splits)
  from t demo_notify(1)
  have a: "status (comps (run demo_prog (sched_wait @ sched_notify) (init demo_world)) ! 0) = 1 \<or>
      status (comps (run demo_prog (sched_wait @ sched_notify) (init demo_world)) ! 0) = 2"
    by blast
  have s1: "status (comps (run demo_prog (sched_wait @ sched_notify) (init demo_world)) ! 0) = 1"
    using demo_notify(2) by (simp add: fetch_result_def split: if_splits)
  from t demo_notify(1) s1
  have "pcs (step demo_prog (run demo_prog (sched_wait @ sched_notify) (init demo_world)) (Comp 1)) 1 =
     W_run (consumer_k (results_of (comps (run demo_prog (sched_wait @ sched_notify) (init demo_world)) ! 0)))"
    by blast
  then have b: "pcs (step demo_prog (run demo_prog (sched_wait @ sched_notify) (init demo_world)) (Comp 1)) 1 =
     W_run (consumer_k [''changed'' \<mapsto> VInt 1, ''dbxml'' \<mapsto> VStr ''/out/db''])"
    by (simp only: r)
  note u = C1_fetch_returns_published_result [where ptf = "\<lambda>v. True"
      and secs = "[(GcamComponent, []), (WaterDisaggregationComponent, [])]"
      and prog = fail_raise and sched = sched_fail and t = 1 and b = 0
      and k = consumer_k, unfolded Let_def, folded demo_world_def]
  have n1: "status (comps (run fail_raise sched_fail (init demo_world)) ! 0) \<noteq> 1"
    using fail_raise_run(3) by simp
  from u fail_raise_run(2) n1
  have "pcs (step fail_raise (run fail_raise sched_fail (init demo_world)) (Comp 1)) 1 =
     W_except (RuntimeError (class_repr (cls (comps (run fail_raise sched_fail (init demo_world)) ! 0)) @
                       '': wait() returned with non-success status!''))"
    by blast
  then have c: "pcs (step fail_raise (run fail_raise sched_fail (init demo_world)) (Comp 1)) 1 =
     W_except (RuntimeError (class_repr GcamComponent @ '': wait() returned with non-success status!''))"
    by (simp only: fail_same(3))
  from s1 b c demo_wait demo_notify(1) fail_raise_run(2,3) show ?thesis by blast
qed

section \<open>The state machine of a task\<close>

text \<open>
  Claim C7: the state of a task is always one of Pending (0), Succeeded (1), Failed (2);
  Pending is the initial state; a single execution of the work moves it from Pending to
  exactly one of Succeeded or Failed; nothing leaves a terminal state.

  In every execution from a parsed configuration (the driver starts every component once),
  for every component \<open>t\<close>: the status is 0 after parsing; it is 0, 1 or 2 at every moment;
  once it is not 0 it is the same at every later moment; when the thread of the component has
  ended the status is 1 if the wrapper ended normally and 2 if it ended with an exception; and
  the only steps that change the status are the two assignments of the wrapper of \<open>t\<close> itself,
  taken when the status is 0.  And the work does move the status: once the body returns the
  code \<open>rv\<close>, in every continuation in which the thread of \<open>t\<close> takes four steps or more,
  however interleaved with the other threads, the thread has ended and the status is 1 if
  \<open>rv\<close> is 0 and 2 otherwise; once the body raises, likewise, with status 2.
\<close>

theorem C7_state_machine:
  "let s0 = init (gcam_parse ptf secs); s = run prog sched s0; s' = run prog sched' s in
   t < length secs \<longrightarrow>
     status (comps s0 ! t) = 0 \<and>
     (status (comps s ! t) = 0 \<or> status (comps s ! t) = 1 \<or> status (comps s ! t) = 2) \<and>
     (status (comps s ! t) \<noteq> 0 \<longrightarrow> status (comps s' ! t) = status (comps s ! t)) \<and>
     (\<forall>eo. pcs s t = Done eo \<longrightarrow> status (comps s ! t) = (if eo = None then 1 else 2)) \<and>
     (status (comps (step prog s x) ! t) \<noteq> status (comps s ! t) \<longrightarrow>
        x = Comp t \<and> status (comps s ! t) = 0 \<and> (pcs s t = W_ok \<or> (\<exists>e. pcs s t = W_except e))) \<and>
     (pcs s t = W_run (Return rv) \<and> 4 \<le> count_list sched' (Comp t) \<longrightarrow>
        (\<exists>eo. pcs s' t = Done eo) \<and> status (comps s' ! t) = (if rv = 0 then 1 else 2)) \<and>
     (pcs s t = W_run (Raise e) \<and> 4 \<le> count_list sched' (Comp t) \<longrightarrow>
        (\<exists>eo. pcs s' t = Done eo) \<and> status (comps s' ! t) = 2)"
proof -
  define s0 where "s0 = init (gcam_parse ptf secs)"
  define s where "s = run prog sched s0"
  define s' where "s' = run prog sched' s"
  have i0: "inv s0" unfolding s0_def by (rule inv_init)
  have i: "inv s" unfolding s_def by (rule inv_run [OF i0])
  have goal: "status (comps s0 ! t) = 0 \<and>
     (status (comps s ! t) = 0 \<or> status (comps s ! t) = 1 \<or> status (comps s ! t) = 2) \<and>
     (status (comps s ! t) \<noteq> 0 \<longrightarrow> status (comps s' ! t) = status (comps s ! t)) \<and>
     (\<forall>eo. pcs s t = Done eo \<longrightarrow> status (comps s ! t) = (if eo = None then 1 else 2)) \<and>
     (status (comps (step prog s x) ! t) \<noteq> status (comps s ! t) \<longrightarrow>
        x = Comp t \<and> status (comps s ! t) = 0 \<and> (pcs s t = W_ok \<or> (\<exists>e. pcs s t = W_except e))) \<and>
     (pcs s t = W_run (Return rv) \<and> 4 \<le> count_list sched' (Comp t) \<longrightarrow>
        (\<exists>eo. pcs s' t = Done eo) \<and> status (comps s' ! t) = (if rv = 0 then 1 else 2)) \<and>
     (pcs s t = W_run (Raise e) \<and> 4 \<le> count_list sched' (Comp t) \<longrightarrow>
        (\<exists>eo. pcs s' t = Done eo) \<and> status (comps s' ! t) = 2)"
    if t: "t < length secs"
  proof -
    have t': "t < length (comps s)" using t by (simp add: s_def s0_def init_def gcam_parse_length)
    have a: "status (comps s ! t) = pc_status (pcs s t)" using status_eq [OF invD(4) [OF i] t'] .
    have 1: "status (comps s0 ! t) = 0" using t by (simp add: s0_def init_def gcam_parse_status)
    have 2: "status (comps s ! t) = 0 \<or> status (comps s ! t) = 1 \<or> status (comps s ! t) = 2"
      using a pc_status_range [of "pcs s t"] by simp
    have 3: "status (comps s' ! t) = status (comps s ! t)" if "status (comps s ! t) \<noteq> 0"
      using terminal_run [OF i, of t prog sched'] that a by (simp add: s'_def)
    have 4: "status (comps s ! t) = (if eo = None then 1 else 2)" if "pcs s t = Done eo" for eo
      using a that by (cases eo) simp_all
    have 5: "x = Comp t \<and> status (comps s ! t) = 0 \<and> (pcs s t = W_ok \<or> (\<exists>e. pcs s t = W_except e))"
      if "status (comps (step prog s x) ! t) \<noteq> status (comps s ! t)"
      using status_changes [OF i t' that] .
    have 6: "(\<exists>eo. pcs s' t = Done eo) \<and> status (comps s' ! t) = (if rv = 0 then 1 else 2)"
      if "pcs s t = W_run (Return rv) \<and> 4 \<le> count_list sched' (Comp t)"
      using wrapper_finishes [OF i, of t sched' prog] that by (simp add: s'_def is_done_iff)
    have 7: "(\<exists>eo. pcs s' t = Done eo) \<and> status (comps s' ! t) = 2"
      if "pcs s t = W_run (Raise e) \<and> 4 \<le> count_list sched' (Comp t)"
      using wrapper_finishes [OF i, of t sched' prog] that by (simp add: s'_def is_done_iff)
    from 1 2 3 4 5 6 7 show ?thesis by blast
  qed
  then show ?thesis unfolding Let_def s0_def [symmetric] s_def [symmetric] s'_def [symmetric]
    by blast
qed

lemma demo_done:
  "status (comps (init demo_world) ! 0) = 0"
  "status (comps (run demo_prog (sched_wait @ sched_notify) (init demo_world)) ! 0) = 1"
  "pcs (run demo_prog (sched_wait @ sched_notify) (init demo_world)) 0 = Done None"
  "status (comps (run demo_prog (sched_wait @ [Comp 0]) (init demo_world)) ! 0) = 0"
  "pcs (run demo_prog (sched_wait @ [Comp 0]) (init demo_world)) 0 = W_ok"
  "status (comps (step demo_prog (run demo_prog (sched_wait @ [Comp 0]) (init demo_world)) (Comp 0)) ! 0) = 1"
  by (simp_all add: demo_defs parse_defs exec_defs)

theorem C7_state_machine_witness:
  "(0::nat) < length [(GcamComponent, []), (WaterDisaggregationComponent, [])] \<and>
   status (comps (init demo_world) ! 0) = 0 \<and>
   status (comps (run demo_prog (sched_wait @ sched_notify) (init demo_world)) ! 0) = 1 \<and>
   status (comps (run demo_prog [Comp 1, Comp 0, Main]
      (run demo_prog (sched_wait @ sched_notify) (init demo_world))) ! 0) = 1 \<and>
   pcs (run demo_prog (sched_wait @ sched_notify) (init demo_world)) 0 = Done None \<and>
   status (comps (run demo_prog (sched_wait @ [Comp 0]) (init demo_world)) ! 0) = 0 \<and>
   status (comps (step demo_prog (run demo_prog (sched_wait @ [Comp 0]) (init demo_world)) (Comp 0)) ! 0) = 1 \<and>
   pcs (run demo_prog (sched_wait @ [Comp 0]) (init demo_world)) 0 = W_ok \<and>
   pcs (run demo_prog sched_wait (init demo_world)) 0 = W_run (Return 0) \<and>
   (4::nat) \<le> count_list sched_notify (Comp 0) \<and>
   (\<exists>eo. pcs (run demo_prog sched_notify (run demo_prog sched_wait (init demo_world))) 0 = Done eo) \<and>
   status (comps (run demo_prog sched_notify (run demo_prog sched_wait (init demo_world))) ! 0) = 1 \<and>
   pcs (run fail_raise [Main, Main, Main, Comp 0] (init demo_world)) 0 =
     W_run (Raise (IOError ''GcamComponent: File /g/gcam.exe does not exist!'')) \<and>
   (4::nat) \<le> count_list [Comp 0, Comp 1, Comp 0, Main, Comp 0, Comp 0] (Comp 0) \<and>
   status (comps (run fail_raise [Comp 0, Comp 1, Comp 0, Main, Comp 0, Comp 0]
      (run fail_raise [Main, Main, Main, Comp 0] (init demo_world))) ! 0) = 2"
proof -
  note t = C7_state_machine [where ptf = "\<lambda>v. True"
      and secs = "[(GcamComponent, []), (WaterDisaggregationComponent, [])]"
      and prog = demo_prog and sched = "sched_wait @ sched_notify" and t = 0
      and sched' = "[Comp 1, Comp 0, Main]", unfolded Let_def, folded demo_world_def]
  from t demo_done(2)
  have 1: "status (comps (run demo_prog [Comp 1, Comp 0, Main]
      (run demo_prog (sched_wait @ sched_notify) (init demo_world))) ! 0) = 1"
    by simp
  have c: "(4::nat) \<le> count_list sched_notify (Comp 0)"
    "(4::nat) \<le> count_list [Comp 0, Comp 1, Comp 0, Main, Comp 0, Comp 0] (Comp 0)"
    by (simp_all add: sched_notify_def)
  note u = C7_state_machine [where ptf = "\<lambda>v. True"
      and secs = "[(GcamComponent, []), (WaterDisaggregationComponent, [])]"
      and prog = demo_prog and sched = sched_wait and t = 0 and rv = 0
      and sched' = sched_notify, unfolded Let_def, folded demo_world_def]
  from u demo_wait(1) c(1)
  have 2: "(\<exists>eo. pcs (run demo_prog sched_notify (run demo_prog sched_wait (init demo_world))) 0 = Done eo) \<and>
     status (comps (run demo_prog sched_notify (run demo_prog sched_wait (init demo_world))) ! 0) = 1"
    by simp
  note v = C7_state_machine [where ptf = "\<lambda>v. True"
      and secs = "[(GcamComponent, []), (WaterDisaggregationComponent, [])]"
      and prog = fail_raise and sched = "[Main, Main, Main, Comp 0]" and t = 0
      and e = "IOError ''GcamComponent: File /g/gcam.exe does not exist!''"
      and sched' = "[Comp 0, Comp 1, Comp 0, Main, Comp 0, Comp 0]",
      unfolded Let_def, folded demo_world_def]
  from v fail_start c(2)
  have 3: "status (comps (run fail_raise [Comp 0, Comp 1, Comp 0, Main, Comp 0, Comp 0]
      (run fail_raise [Main, Main, Main, Comp 0] (init demo_world))) ! 0) = 2"
    by simp
  from 1 2 3 c demo_done demo_wait(1) fail_start show ?thesis by simp
qed

section \<open>Fetching from a failed task\<close>

text \<open>
  Claim C2, as stated: every \<^verbatim>\<open>fetch()\<close> on a failed task fails with an error that carries
  the original error, so that a consumer can tell causes apart.  \<^verbatim>\<open>fetch\<close> raises
  \<^verbatim>\<open>RuntimeError("%s: wait() returned with non-success status!" % self.__class__)\<close>, and the
  component stores nothing but the status 2.  A producer that raised \<^verbatim>\<open>IOError\<close> and a producer
  that returned the code 3 give their consumers the very same error.
\<close>

theorem C2_counterexample:
  "pcs (run fail_raise sched_fail (init demo_world)) 0 =
     Done (Some (IOError ''GcamComponent: File /g/gcam.exe does not exist!'')) \<and>
   pcs (run fail_code sched_fail (init demo_world)) 0 =
     Done (Some (RuntimeError (class_repr GcamComponent @ '':  run_component returned error code 3''))) \<and>
   fetch_result (run fail_raise sched_fail (init demo_world)) 0 =
     Inl (RuntimeError (class_repr GcamComponent @ '': wait() returned with non-success status!'')) \<and>
   fetch_result (run fail_code sched_fail (init demo_world)) 0 =
     fetch_result (run fail_raise sched_fail (init demo_world)) 0"
  using fail_raise_run fail_code_run by simp

text \<open>
  Claim C2, amended: for every task whose state is Failed, every call of \<^verbatim>\<open>fetch()\<close> that ends
  at that or any later moment, from any caller, raises the same \<^verbatim>\<open>RuntimeError\<close>, whose message
  names the class of the failed task and nothing of the original error; the failed component
  is never changed again and its thread never goes back into its work.
\<close>

theorem C2_failure_is_sticky:
  "let s = run prog sched (init (gcam_parse ptf secs)); s' = run prog sched' s;
       err = RuntimeError (class_repr (cls (comps s ! b)) @ '': wait() returned with non-success status!'')
   in b < length secs \<and> status (comps s ! b) = 2 \<longrightarrow>
        fetch_result s' b = Inl err \<and>
        comps s' ! b = comps s ! b \<and>
        pc_status (pcs s' b) = 2 \<and>
        (pcs s' t = F_check b k \<longrightarrow> comp_step prog t s' = set_pc t (W_except err) s')"
proof -
  define s where "s = run prog sched (init (gcam_parse ptf secs))"
  define s' where "s' = run prog sched' s"
  define err where
    "err = RuntimeError (class_repr (cls (comps s ! b)) @ '': wait() returned with non-success status!'')"
  have i: "inv s" unfolding s_def by (rule inv_run [OF inv_init])
  have goal: "fetch_result s' b = Inl err \<and> comps s' ! b = comps s ! b \<and> pc_status (pcs s' b) = 2 \<and>
        (pcs s' t = F_check b k \<longrightarrow> comp_step prog t s' = set_pc t (W_except err) s')"
    if b: "b < length secs" and st: "status (comps s ! b) = 2"
  proof -
    have b': "b < length (comps s)" using b by (simp add: s_def init_def gcam_parse_length)
    have a: "pc_status (pcs s b) = 2" using status_eq [OF invD(4) [OF i] b'] st by simp
    then have n: "pc_status (pcs s b) \<noteq> 0" by simp
    from terminal_run [OF i n, of prog sched'] a
    have fr: "comps s' ! b = comps s ! b" "pc_status (pcs s' b) = 2" by (simp_all add: s'_def)
    then have f: "fetch_result s' b = Inl err" using st by (simp add: fetch_result_def err_def)
    then have "comp_step prog t s' = set_pc t (W_except err) s'" if "pcs s' t = F_check b k"
      using that by (simp add: comp_step_def)
    with fr f show ?thesis by blast
  qed
  then show ?thesis unfolding Let_def s_def [symmetric] s'_def [symmetric] err_def [symmetric]
    by blast
qed

theorem C2_failure_is_sticky_witness:
  "(0::nat) < length [(GcamComponent, []), (WaterDisaggregationComponent, [])] \<and>
   status (comps (run fail_raise sched_fail (init demo_world)) ! 0) = 2 \<and>
   fetch_result (run fail_raise [Comp 0, Main] (run fail_raise sched_fail (init demo_world))) 0 =
     Inl (RuntimeError (class_repr GcamComponent @ '': wait() returned with non-success status!'')) \<and>
   pc_status (pcs (run fail_raise [Comp 0, Main] (run fail_raise sched_fail (init demo_world))) 0) = 2 \<and>
   pcs (run fail_raise [Comp 0, Main] (run fail_raise sched_fail (init demo_world))) 1 = F_check 0 consumer_k \<and>
   pcs (comp_step fail_raise 1 (run fail_raise [Comp 0, Main] (run fail_raise sched_fail (init demo_world)))) 1 =
     W_except (RuntimeError (class_repr GcamComponent @ '': wait() returned with non-success status!''))"
proof -
  have c: "cls (comps (run fail_raise sched_fail (init demo_world)) ! 0) = GcamComponent"
    and p: "pcs (run fail_raise [Comp 0, Main] (run fail_raise sched_fail (init demo_world))) 1 = F_check 0 consumer_k"
    by (simp_all add: fail_raise_def sched_fail_def demo_defs parse_defs exec_defs)
  note t = C2_failure_is_sticky [where ptf = "\<lambda>v. True"
      and secs = "[(GcamComponent, []), (WaterDisaggregationComponent, [])]"
      and prog = fail_raise and sched = sched_fail and b = 0 and t = 1 and k = consumer_k
      and sched' = "[Comp 0, Main]", unfolded Let_def, folded demo_world_def, unfolded c]
  from t fail_raise_run(3) p show ?thesis by simp
qed

section \<open>A task whose work fails\<close>

text \<open>
  Claim C3, as stated: an error of the work function is captured, the task becomes Failed
  with the original cause retrievable, and the error never escapes unhandled.  The wrapper's
  handler is \<^verbatim>\<open>except: self.status = 2; raise\<close>: the error is raised again and ends the thread
  of the component.
\<close>

theorem C3_counterexample:
  "pcs (run fail_raise [Main, Comp 0] (init demo_world)) 0 =
     W_run (Raise (IOError ''GcamComponent: File /g/gcam.exe does not exist!'')) \<and>
   pcs (run fail_raise [Main, Comp 0, Comp 0, Comp 0, Comp 0, Comp 0] (init demo_world)) 0 =
     Done (Some (IOError ''GcamComponent: File /g/gcam.exe does not exist!''))"
  by (simp add: fail_raise_def demo_defs parse_defs exec_defs)

text \<open>
  Claim C3, amended: when the work function raises, or returns a code other than 0 (which the
  wrapper turns into a \<^verbatim>\<open>RuntimeError\<close> naming the class and the code), the wrapper sets the
  status to 2, notifies all waiters, releases the lock, and the error then leaves the wrapper
  and ends the thread; from then on \<^verbatim>\<open>fetch()\<close> on the task raises a \<^verbatim>\<open>RuntimeError\<close>.  The
  component keeps no record of the cause.  The driver's \<^verbatim>\<open>join()\<close> on a thread that ended with
  an error returns normally.
\<close>

theorem C3_failure_is_recorded_and_reraised:
  "let s = run prog sched (init (gcam_parse ptf secs));
       s1 = step prog s (Comp t);
       s4 = run prog [Comp t, Comp t, Comp t] s1;
       code_err = (\<lambda>rv. RuntimeError (class_repr (cls (comps s ! t)) @
                    '':  run_component returned error code '' @ str_int rv))
   in (pcs s t = W_run (Raise e) \<longrightarrow> pcs s1 t = W_except e) \<and>
      (pcs s t = W_run (Return rv) \<and> rv \<noteq> 0 \<longrightarrow> pcs s1 t = W_except (code_err rv)) \<and>
      (pcs s1 t = W_except e' \<longrightarrow>
         status (comps s4 ! t) = 2 \<and> pcs s4 t = Done (Some e') \<and>
         waiters s4 t = {} \<and> lock s4 t = None \<and>
         (\<exists>msg. fetch_result s4 t = Inl (RuntimeError msg))) \<and>
      (pcs s t = Done (Some e) \<and> mpc s = M_join t \<and> t < length secs \<longrightarrow>
         mpc (step prog s Main) = M_join (Suc t))"
proof -
  define s where "s = run prog sched (init (gcam_parse ptf secs))"
  define s1 where "s1 = step prog s (Comp t)"
  define s4 where "s4 = run prog [Comp t, Comp t, Comp t] s1"
  have i: "inv s" unfolding s_def by (rule inv_run [OF inv_init])
  have i1: "inv s1" unfolding s1_def by (rule inv_step [OF i])
  have 1: "pcs s1 t = W_except e" if "pcs s t = W_run (Raise e)"
    using that by (simp add: s1_def comp_step_def work_step_def)
  have 2: "pcs s1 t = W_except (RuntimeError (class_repr (cls (comps s ! t)) @
                    '':  run_component returned error code '' @ str_int rv))"
    if "pcs s t = W_run (Return rv) \<and> rv \<noteq> 0"
    using that by (simp add: s1_def comp_step_def work_step_def)
  have 3: "status (comps s4 ! t) = 2 \<and> pcs s4 t = Done (Some e') \<and>
         waiters s4 t = {} \<and> lock s4 t = None \<and>
         (\<exists>msg. fetch_result s4 t = Inl (RuntimeError msg))"
    if "pcs s1 t = W_except e'"
  proof -
    from wrapper_except [OF i1 that, of prog]
    have w: "status (comps s4 ! t) = 2" "pcs s4 t = Done (Some e')" "waiters s4 t = {}"
      "lock s4 t = None" by (simp_all add: s4_def)
    then have "\<exists>msg. fetch_result s4 t = Inl (RuntimeError msg)" by (simp add: fetch_result_def)
    with w show ?thesis by blast
  qed
  have 4: "mpc (step prog s Main) = M_join (Suc t)"
    if "pcs s t = Done (Some e) \<and> mpc s = M_join t \<and> t < length secs"
    using that by (simp add: main_step_def s_def init_def gcam_parse_length)
  from 1 2 3 4 show ?thesis
    unfolding Let_def s_def [symmetric] s1_def [symmetric] s4_def [symmetric] by blast
qed

lemma fail_code_steps:
  "pcs (run fail_code [Main, Main, Main, Comp 0] (init demo_world)) 0 = W_run (Return 3)"
  "pcs (step fail_code (run fail_code [Main, Main, Main, Comp 0] (init demo_world)) (Comp 0)) 0 =
     W_except (RuntimeError (class_repr GcamComponent @ '':  run_component returned error code 3''))"
  "cls (comps (run fail_code [Main, Main, Main, Comp 0] (init demo_world)) ! 0) = GcamComponent"
  by (simp_all add: fail_code_def demo_defs parse_defs exec_defs str_int_def)

lemma fail_code_join:
  "pcs (run fail_code [Main, Main, Main, Comp 0, Comp 0, Comp 0, Comp 0, Comp 0] (init demo_world)) 0 =
     Done (Some (RuntimeError (class_repr GcamComponent @ '':  run_component returned error code 3'')))"
  "mpc (run fail_code [Main, Main, Main, Comp 0, Comp 0, Comp 0, Comp 0, Comp 0] (init demo_world)) = M_join 0"
  by (simp_all add: fail_code_def demo_defs parse_defs exec_defs str_int_def)

theorem C3_failure_is_recorded_and_reraised_witness:
  "pcs (run fail_code [Main, Main, Main, Comp 0] (init demo_world)) 0 = W_run (Return 3) \<and>
   (3::int) \<noteq> 0 \<and>
   pcs (step fail_code (run fail_code [Main, Main, Main, Comp 0] (init demo_world)) (Comp 0)) 0 =
     W_except (RuntimeError (class_repr GcamComponent @ '':  run_component returned error code 3'')) \<and>
   status (comps (run fail_code [Comp 0, Comp 0, Comp 0]
      (step fail_code (run fail_code [Main, Main, Main, Comp 0] (init demo_world)) (Comp 0))) ! 0) = 2 \<and>
   pcs (run fail_code [Comp 0, Comp 0, Comp 0]
      (step fail_code (run fail_code [Main, Main, Main, Comp 0] (init demo_world)) (Comp 0))) 0 =
     Done (Some (RuntimeError (class_repr GcamComponent @ '':  run_component returned error code 3''))) \<and>
   pcs (run fail_code [Main, Main, Main, Comp 0, Comp 0, Comp 0, Comp 0, Comp 0] (init demo_world)) 0 =
     Done (Some (RuntimeError (class_repr GcamComponent @ '':  run_component returned error code 3''))) \<and>
   mpc (run fail_code [Main, Main, Main, Comp 0, Comp 0, Comp 0, Comp 0, Comp 0] (init demo_world)) = M_join 0 \<and>
   (0::nat) < length [(GcamComponent, []), (WaterDisaggregationComponent, [])] \<and>
   mpc (step fail_code (run fail_code [Main, Main, Main, Comp 0, Comp 0, Comp 0, Comp 0, Comp 0]
      (init demo_world)) Main) = M_join 1"
proof -
  note a = C3_failure_is_recorded_and_reraised [where ptf = "\<lambda>v. True"
      and secs = "[(GcamComponent, []), (WaterDisaggregationComponent, [])]"
      and prog = fail_code and sched = "[Main, Main, Main, Comp 0]" and t = 0 and rv = 3
      and e' = "RuntimeError (class_repr GcamComponent @ '':  run_component returned error code 3'')",
      unfolded Let_def, folded demo_world_def]
  note b = C3_failure_is_recorded_and_reraised [where ptf = "\<lambda>v. True"
      and secs = "[(GcamComponent, []), (WaterDisaggregationComponent, [])]"
      and prog = fail_code and sched = "[Main, Main, Main, Comp 0, Comp 0, Comp 0, Comp 0, Comp 0]"
      and t = 0
      and e = "RuntimeError (class_repr GcamComponent @ '':  run_component returned error code 3'')",
      unfolded Let_def, folded demo_world_def]
  from a fail_code_steps
  have 1: "status (comps (run fail_code [Comp 0, Comp 0, Comp 0]
      (step fail_code (run fail_code [Main, Main, Main, Comp 0] (init demo_world)) (Comp 0))) ! 0) = 2"
    and 2: "pcs (run fail_code [Comp 0, Comp 0, Comp 0]
      (step fail_code (run fail_code [Main, Main, Main, Comp 0] (init demo_world)) (Comp 0))) 0 =
     Done (Some (RuntimeError (class_repr GcamComponent @ '':  run_component returned error code 3'')))"
    by blast+
  from b fail_code_join
  have 3: "mpc (step fail_code (run fail_code [Main, Main, Main, Comp 0, Comp 0, Comp 0, Comp 0, Comp 0]
      (init demo_world)) Main) = M_join 1"
    by simp
  from 1 2 3 fail_code_steps fail_code_join show ?thesis by simp
qed

section \<open>The driver\<close>

text \<open>
  Claim C6: the Engine's run starts every task of the sequence, collects a handle for each,
  blocks until every handle has terminated, never calls \<^verbatim>\<open>fetch()\<close> itself, and then reports
  the count of the tasks whose state is not Succeeded, without raising.

  In every execution from a parsed configuration of \<open>length secs\<close> components, however the
  steps of the driver are interleaved with those of the threads: after \<open>n\<close> steps of the
  driver, \<open>n\<close> not above the number of components, the driver is at index \<open>n\<close> of its start
  loop and exactly the threads of the components before \<open>n\<close> have been started; a step at
  index \<open>j\<close> starts the thread of component \<open>j\<close>; one step more than there are components, and
  the driver is at the beginning of its join loop.  In the join loop every thread has been
  started; a step at index \<open>i\<close> goes on to the next index if thread \<open>i\<close> has ended and changes
  nothing otherwise.  When the driver is at its report with counter \<open>fail\<close>, the thread of every
  component has ended, every status is 1 or 2, and \<open>fail\<close> is the number of components whose
  status is not 1.  A step of the driver never touches a lock, a set of waiters or a component
  (it does not fetch).  And once every thread has ended, the driver by itself reaches its
  report, with that count, however the threads ended.
\<close>

theorem C6_engine_run:
  "let s = run prog sched (init (gcam_parse ptf secs)) in
   (mpc s = M_done fail \<longrightarrow>
      (\<forall>t<length secs. \<exists>eo. pcs s t = Done eo) \<and>
      (\<forall>t<length secs. status (comps s ! t) = 1 \<or> status (comps s ! t) = 2) \<and>
      fail = count_failed (comps s)) \<and>
   (mpc s = M_join i \<longrightarrow> (\<forall>t<length secs. pcs s t \<noteq> Unstarted)) \<and>
   lock (step prog s Main) = lock s \<and> waiters (step prog s Main) = waiters s \<and>
   comps (step prog s Main) = comps s \<and>
   ((\<forall>t<length secs. \<exists>eo. pcs s t = Done eo) \<longrightarrow>
      (\<exists>m. mpc (run prog (replicate m Main) s) = M_done (count_failed (comps s)))) \<and>
   (count_list sched Main = n \<and> n \<le> length secs \<longrightarrow>
      mpc s = M_run n \<and> (\<forall>t. (pcs s t \<noteq> Unstarted) = (t < n))) \<and>
   (count_list sched Main = Suc (length secs) \<longrightarrow> mpc s = M_join 0) \<and>
   (mpc s = M_run j \<and> j < length secs \<longrightarrow>
      pcs (step prog s Main) j = W_enter \<and> mpc (step prog s Main) = M_run (Suc j)) \<and>
   (mpc s = M_join i \<and> i < length secs \<longrightarrow>
      step prog s Main = (if \<exists>eo. pcs s i = Done eo then s\<lparr>mpc := M_join (Suc i)\<rparr> else s))"
proof -
  define s where "s = run prog sched (init (gcam_parse ptf secs))"
  have i: "inv s" unfolding s_def by (rule inv_run [OF inv_init])
  have j: "join_inv s" unfolding s_def by (rule join_inv_run [OF inv_init join_inv_init])
  have n: "length (comps s) = length secs" by (simp add: s_def init_def gcam_parse_length)
  have 1: "(\<forall>t<length secs. \<exists>eo. pcs s t = Done eo) \<and>
      (\<forall>t<length secs. status (comps s ! t) = 1 \<or> status (comps s ! t) = 2) \<and>
      fail = count_failed (comps s)"
    if m: "mpc s = M_done fail"
  proof -
    from j m have d: "\<And>t. t < length secs \<Longrightarrow> is_done (pcs s t)" and f: "fail = count_failed (comps s)"
      by (simp_all add: join_inv_def n)
    have "status (comps s ! t) = 1 \<or> status (comps s ! t) = 2" if "t < length secs" for t
    proof -
      from d [OF that] obtain eo where "pcs s t = Done eo" by (auto simp: is_done_iff)
      with status_eq [OF invD(4) [OF i], of t] that n show ?thesis by (cases eo) simp_all
    qed
    with d f show ?thesis by (auto simp: is_done_iff)
  qed
  have 2: "\<forall>t<length secs. pcs s t \<noteq> Unstarted" if "mpc s = M_join i"
    using j that by (simp add: join_inv_def n)
  have 3: "\<exists>m. mpc (run prog (replicate m Main) s) = M_done (count_failed (comps s))"
    if "\<forall>t<length secs. \<exists>eo. pcs s t = Done eo"
    by (rule main_finishes [OF i j]) (use that n in \<open>auto simp: is_done_iff\<close>)
  have 4: "mpc s = M_run n \<and> (\<forall>t. (pcs s t \<noteq> Unstarted) = (t < n))"
    if "count_list sched Main = n \<and> n \<le> length secs"
  proof -
    from that have m: "mpc s = M_run n"
      unfolding s_def by (intro start_loop) (simp_all add: gcam_parse_length)
    have "pcs s t \<noteq> Unstarted" if "t < n" for t
      using j m that by (simp add: join_inv_def)
    moreover have "pcs s t = Unstarted" if "\<not> t < n" for t
      using invD(5) [OF i] m that by (simp add: main_inv_def)
    ultimately show ?thesis using m by blast
  qed
  have 5: "mpc s = M_join 0" if "count_list sched Main = Suc (length secs)"
    unfolding s_def by (rule start_loop_end) (simp add: that gcam_parse_length)
  have 6: "pcs (step prog s Main) j = W_enter \<and> mpc (step prog s Main) = M_run (Suc j)"
    if "mpc s = M_run j \<and> j < length secs"
    using that n by (simp add: main_step_def)
  have 7: "step prog s Main = (if \<exists>eo. pcs s i = Done eo then s\<lparr>mpc := M_join (Suc i)\<rparr> else s)"
    if "mpc s = M_join i \<and> i < length secs"
    using that n by (cases "pcs s i") (simp_all add: main_step_def)
  from 1 2 3 4 5 6 7 show ?thesis unfolding Let_def s_def [symmetric] by simp
qed

lemma fail_all_done:
  "pcs (run fail_raise sched_fail_done (init demo_world)) 0 =
     Done (Some (IOError ''GcamComponent: File /g/gcam.exe does not exist!''))"
  "pcs (run fail_raise sched_fail_done (init demo_world)) 1 =
     Done (Some (RuntimeError (class_repr GcamComponent @ '': wait() returned with non-success status!'')))"
  "mpc (run fail_raise sched_fail_done (init demo_world)) = M_join 0"
  "map status (comps (run fail_raise sched_fail_done (init demo_world))) = [2, 2]"
  by (simp_all add: sched_fail_done_def fail_raise_def sched_fail_def demo_defs parse_defs exec_defs
      consumer_k_def)

lemma fail_reported:
  "mpc (run fail_raise (sched_fail_done @ [Main, Main, Main, Main, Main, Main]) (init demo_world)) = M_done 2"
  by (simp add: sched_fail_done_def fail_raise_def sched_fail_def demo_defs parse_defs exec_defs
      consumer_k_def)

theorem C6_engine_run_witness:
  "mpc (run fail_raise (sched_fail_done @ [Main, Main, Main, Main, Main, Main]) (init demo_world)) = M_done 2 \<and>
   count_failed (comps (run fail_raise (sched_fail_done @ [Main, Main, Main, Main, Main, Main])
      (init demo_world))) = 2 \<and>
   mpc (run fail_raise sched_fail_done (init demo_world)) = M_join 0 \<and>
   pcs (run fail_raise sched_fail_done (init demo_world)) 0 =
     Done (Some (IOError ''GcamComponent: File /g/gcam.exe does not exist!'')) \<and>
   pcs (run fail_raise sched_fail_done (init demo_world)) 1 =
     Done (Some (RuntimeError (class_repr GcamComponent @ '': wait() returned with non-success status!''))) \<and>
   map status (comps (run fail_raise sched_fail_done (init demo_world))) = [2, 2] \<and>
   (\<exists>m. mpc (run fail_raise (replicate m Main) (run fail_raise sched_fail_done (init demo_world))) =
      M_done (count_failed (comps (run fail_raise sched_fail_done (init demo_world))))) \<and>
   count_list [Main, Comp 0, Main, Comp 1] Main = 2 \<and>
   mpc (run fail_raise [Main, Comp 0, Main, Comp 1] (init demo_world)) = M_run 2 \<and>
   pcs (run fail_raise [Main, Comp 0, Main, Comp 1] (init demo_world)) 1 \<noteq> Unstarted \<and>
   pcs (run fail_raise [Main, Comp 0, Main, Comp 1] (init demo_world)) 2 = Unstarted \<and>
   mpc (run fail_raise [Main, Comp 0, Main, Comp 1, Main] (init demo_world)) = M_join 0 \<and>
   mpc (run fail_raise [Main] (init demo_world)) = M_run 1 \<and>
   pcs (step fail_raise (run fail_raise [Main] (init demo_world)) Main) 1 = W_enter \<and>
   step fail_raise (run fail_raise [Main, Comp 0, Main, Comp 1, Main] (init demo_world)) Main =
     run fail_raise [Main, Comp 0, Main, Comp 1, Main] (init demo_world)"
proof -
  note a = C6_engine_run [where ptf = "\<lambda>v. True"
      and secs = "[(GcamComponent, []), (WaterDisaggregationComponent, [])]"
      and prog = fail_raise and sched = "sched_fail_done @ [Main, Main, Main, Main, Main, Main]"
      and fail = 2, unfolded Let_def, folded demo_world_def]
  note b = C6_engine_run [where ptf = "\<lambda>v. True"
      and secs = "[(GcamComponent, []), (WaterDisaggregationComponent, [])]"
      and prog = fail_raise and sched = sched_fail_done and i = 0,
      unfolded Let_def, folded demo_world_def]
  from a fail_reported
  have 1: "count_failed (comps (run fail_raise (sched_fail_done @ [Main, Main, Main, Main, Main, Main])
      (init demo_world))) = 2"
    by simp
  have "\<forall>t<length [(GcamComponent, []), (WaterDisaggregationComponent, [])].
          \<exists>eo. pcs (run fail_raise sched_fail_done (init demo_world)) t = Done eo"
    using fail_all_done(1,2) by (simp add: less_Suc_eq)
  with b
  have 2: "\<exists>m. mpc (run fail_raise (replicate m Main) (run fail_raise sched_fail_done (init demo_world))) =
      M_done (count_failed (comps (run fail_raise sched_fail_done (init demo_world))))"
    by blast
  note c = C6_engine_run [where ptf = "\<lambda>v. True"
      and secs = "[(GcamComponent, []), (WaterDisaggregationComponent, [])]"
      and prog = fail_raise and sched = "[Main, Comp 0, Main, Comp 1]" and n = 2,
      unfolded Let_def, folded demo_world_def]
  have c2: "count_list [Main, Comp 0, Main, Comp 1] Main = 2" by simp
  have l: "(2::nat) \<le> length [(GcamComponent, []), (WaterDisaggregationComponent, [])]"
    "(0::nat) < length [(GcamComponent, []), (WaterDisaggregationComponent, [])]"
    "(1::nat) < length [(GcamComponent, []), (WaterDisaggregationComponent, [])]"
    "(1::nat) \<le> length [(GcamComponent, []), (WaterDisaggregationComponent, [])]"
    by simp_all
  from c c2 l(1)
  have 3: "mpc (run fail_raise [Main, Comp 0, Main, Comp 1] (init demo_world)) = M_run 2 \<and>
      (\<forall>t. (pcs (run fail_raise [Main, Comp 0, Main, Comp 1] (init demo_world)) t \<noteq> Unstarted) = (t < 2))"
    by blast
  have lt: "(1::nat) < 2" "\<not> (2::nat) < 2" by simp_all
  from 3 lt have 4: "pcs (run fail_raise [Main, Comp 0, Main, Comp 1] (init demo_world)) 1 \<noteq> Unstarted"
    and 5: "pcs (run fail_raise [Main, Comp 0, Main, Comp 1] (init demo_world)) 2 = Unstarted"
    by blast+
  note e = C6_engine_run [where ptf = "\<lambda>v. True"
      and secs = "[(GcamComponent, []), (WaterDisaggregationComponent, [])]"
      and prog = fail_raise and sched = "[Main, Comp 0, Main, Comp 1, Main]" and i = 0,
      unfolded Let_def, folded demo_world_def]
  have "count_list [Main, Comp 0, Main, Comp 1, Main] Main =
      Suc (length [(GcamComponent, []), (WaterDisaggregationComponent, [])])" by simp
  with e have 6: "mpc (run fail_raise [Main, Comp 0, Main, Comp 1, Main] (init demo_world)) = M_join 0"
    by blast
  have nd: "\<not> (\<exists>eo. pcs (run fail_raise [Main, Comp 0, Main, Comp 1, Main] (init demo_world)) 0 = Done eo)"
    by (simp only: join_blocked) simp
  from e 6 l(2)
  have "step fail_raise (run fail_raise [Main, Comp 0, Main, Comp 1, Main] (init demo_world)) Main =
     (if \<exists>eo. pcs (run fail_raise [Main, Comp 0, Main, Comp 1, Main] (init demo_world)) 0 = Done eo
      then (run fail_raise [Main, Comp 0, Main, Comp 1, Main] (init demo_world))\<lparr>mpc := M_join (Suc 0)\<rparr>
      else run fail_raise [Main, Comp 0, Main, Comp 1, Main] (init demo_world))"
    by blast
  then have 7: "step fail_raise (run fail_raise [Main, Comp 0, Main, Comp 1, Main] (init demo_world)) Main =
     run fail_raise [Main, Comp 0, Main, Comp 1, Main] (init demo_world)"
    by (simp only: nd if_False)
  note f = C6_engine_run [where ptf = "\<lambda>v. True"
      and secs = "[(GcamComponent, []), (WaterDisaggregationComponent, [])]"
      and prog = fail_raise and sched = "[Main]" and n = 1 and j = 1,
      unfolded Let_def, folded demo_world_def]
  have c1: "count_list [Main] Main = 1" by simp
  from f c1 l(4) have 8: "mpc (run fail_raise [Main] (init demo_world)) = M_run 1" by blast
  from f 8 l(3) have 9: "pcs (step fail_raise (run fail_raise [Main] (init demo_world)) Main) 1 = W_enter"
    by blast
  from 1 2 fail_reported fail_all_done c2 3 4 5 6 7 8 9 show ?thesis by blast
qed

section \<open>Waking up the waiters\<close>






section \<open>The general parameters\<close>

text \<open>
  Claim C10, as stated: for the task providing \<^verbatim>\<open>general\<close> the results mapping is the
  parameters mapping, and running the task converts \<^verbatim>\<open>ModelInterface\<close> and \<^verbatim>\<open>DBXMLlib\<close> to
  absolute paths and inserts the defaults \<^verbatim>\<open>inputdir='./input-data'\<close> and \<^verbatim>\<open>rgnconfig='rgn14'\<close>
  when those keys are absent.  The body stores \<^verbatim>\<open>util.abspath(inputdir, os.getcwd())\<close> and
  \<^verbatim>\<open>util.abspath(rgnconfig, self.results['inputdir'])\<close>.  With both keys absent, the entries
  after the run are, whatever \<^verbatim>\<open>util.abspath\<close> is, its values at the two defaults; they are the
  defaults themselves only if \<^verbatim>\<open>util.abspath\<close> returns the relative paths \<^verbatim>\<open>./input-data\<close> and
  \<^verbatim>\<open>rgn14\<close> as they are.  With an \<open>abspath\<close> that resolves a relative path against the given
  directory, as the docstring of the class describes, and the working directory \<^verbatim>\<open>/work\<close>,
  they are \<^verbatim>\<open>/work/./input-data\<close> and \<^verbatim>\<open>/work/./input-data/rgn14\<close>.
\<close>

theorem C10_counterexample:
  "params_of general_component ''inputdir'' = None \<and>
   params_of general_component ''rgnconfig'' = None \<and>
   (\<forall>env. results_of (fst (exec (GlobalParams_run env) no_fetch general_component)) ''inputdir'' =
            Some (VStr (abspath env ''./input-data'' (Some (getcwd env)))) \<and>
          results_of (fst (exec (GlobalParams_run env) no_fetch general_component)) ''rgnconfig'' =
            Some (VStr (abspath env ''rgn14''
                   (Some (abspath env ''./input-data'' (Some (getcwd env))))))) \<and>
   results_of (fst (exec (GlobalParams_run demo_env) no_fetch general_component)) ''inputdir'' =
     Some (VStr ''/work/./input-data'') \<and>
   results_of (fst (exec (GlobalParams_run demo_env) no_fetch general_component)) ''rgnconfig'' =
     Some (VStr ''/work/./input-data/rgn14'')"
  by (simp add: general_component_eq GlobalParams_run_def result_item_def result_item_default_def
      getitem_def results_of_def params_of_def set_result_def demo_env_def demo_abspath_def)

text \<open>
  Claim C10, amended: the constructor makes \<^verbatim>\<open>results\<close> the same object as \<^verbatim>\<open>params\<close> and
  registers the task as \<^verbatim>\<open>general\<close>; every parameter added by \<^verbatim>\<open>addparam\<close> is an entry of the
  results at once, while the status is still 0.  If \<^verbatim>\<open>ModelInterface\<close> and \<^verbatim>\<open>DBXMLlib\<close> are
  present, running the task changes this one mapping in place and returns 0:
  \<^verbatim>\<open>ModelInterface\<close> and \<^verbatim>\<open>DBXMLlib\<close> become their absolute paths, \<^verbatim>\<open>inputdir\<close> becomes the
  absolute path (from the working directory) of its value or, if absent, of \<^verbatim>\<open>./input-data\<close>,
  and \<^verbatim>\<open>rgnconfig\<close> becomes the absolute path (from the new \<^verbatim>\<open>inputdir\<close>) of its value or, if
  absent, of \<^verbatim>\<open>rgn14\<close>.  If \<^verbatim>\<open>ModelInterface\<close> is absent the run raises \<^verbatim>\<open>KeyError\<close> and changes
  nothing; if only \<^verbatim>\<open>DBXMLlib\<close> is absent it raises \<^verbatim>\<open>KeyError\<close> after \<^verbatim>\<open>ModelInterface\<close> has
  been replaced by its absolute path.
\<close>

theorem C10_general_results_are_params:
  "(case new_component GlobalParamsComponent self tbl of
      (c0, tbl') \<Rightarrow> results c0 = params c0 \<and> status c0 = 0 \<and> tbl' ''general'' = Some self) \<and>
   (results c = params c \<longrightarrow>
      results (addparam key v c) = params (addparam key v c) \<and>
      results_of (addparam key v c) = (params_of c)(key \<mapsto> v) \<and>
      status (addparam key v c) = status c) \<and>
   (results c = params c \<and>
    params_of c ''ModelInterface'' = Some (VStr mi) \<and>
    params_of c ''DBXMLlib'' = Some (VStr db) \<and>
    with_default (params_of c ''inputdir'') ''./input-data'' = Some inputdir \<and>
    with_default (params_of c ''rgnconfig'') ''rgn14'' = Some rgnconfig \<longrightarrow>
      (case exec (GlobalParams_run env) f c of
         (c', out) \<Rightarrow>
           out = Inr 0 \<and> results c' = params c' \<and> status c' = status c \<and>
           results_of c' = (params_of c)
             (''ModelInterface'' \<mapsto> VStr (abspath env mi None),
              ''DBXMLlib'' \<mapsto> VStr (abspath env db None),
              ''inputdir'' \<mapsto> VStr (abspath env inputdir (Some (getcwd env))),
              ''rgnconfig'' \<mapsto> VStr (abspath env rgnconfig
                  (Some (abspath env inputdir (Some (getcwd env)))))))) \<and>
   (results c = params c \<and> params_of c ''ModelInterface'' = None \<longrightarrow>
      exec (GlobalParams_run env) f c = (c, Inl (KeyError ''ModelInterface''))) \<and>
   (results c = params c \<and> params_of c ''ModelInterface'' = Some (VStr mi) \<and>
    params_of c ''DBXMLlib'' = None \<longrightarrow>
      (case exec (GlobalParams_run env) f c of
         (c', out) \<Rightarrow>
           out = Inl (KeyError ''DBXMLlib'') \<and>
           results_of c' = (params_of c)(''ModelInterface'' \<mapsto> VStr (abspath env mi None))))"
proof (intro conjI impI)
  show "case new_component GlobalParamsComponent self tbl of
      (c0, tbl') \<Rightarrow> results c0 = params c0 \<and> status c0 = 0 \<and> tbl' ''general'' = Some self"
    by (simp add: new_component_def ComponentBase_init_def cap_tbl_assign_def)
next
  assume a: "results c = params c"
  show "results (addparam key v c) = params (addparam key v c)" using a by (simp add: addparam_def)
  show "results_of (addparam key v c) = (params_of c)(key \<mapsto> v)"
    using a by (simp add: addparam_def results_of_def params_of_def)
  show "status (addparam key v c) = status c" by (simp add: addparam_def)
next
  assume h: "results c = params c \<and>
    params_of c ''ModelInterface'' = Some (VStr mi) \<and>
    params_of c ''DBXMLlib'' = Some (VStr db) \<and>
    with_default (params_of c ''inputdir'') ''./input-data'' = Some inputdir \<and>
    with_default (params_of c ''rgnconfig'') ''rgn14'' = Some rgnconfig"
  then have a: "results c = params c" by simp
  from h exec_global [of c mi db inputdir rgnconfig env f]
  show "case exec (GlobalParams_run env) f c of
         (c', out) \<Rightarrow>
           out = Inr 0 \<and> results c' = params c' \<and> status c' = status c \<and>
           results_of c' = (params_of c)
             (''ModelInterface'' \<mapsto> VStr (abspath env mi None),
              ''DBXMLlib'' \<mapsto> VStr (abspath env db None),
              ''inputdir'' \<mapsto> VStr (abspath env inputdir (Some (getcwd env))),
              ''rgnconfig'' \<mapsto> VStr (abspath env rgnconfig
                  (Some (abspath env inputdir (Some (getcwd env))))))"
    by (simp add: results_of_def a)
next
  assume "results c = params c \<and> params_of c ''ModelInterface'' = None"
  then show "exec (GlobalParams_run env) f c = (c, Inl (KeyError ''ModelInterface''))"
    by (simp add: GlobalParams_run_def result_item_def getitem_def results_of_def params_of_def)
next
  assume "results c = params c \<and> params_of c ''ModelInterface'' = Some (VStr mi) \<and>
    params_of c ''DBXMLlib'' = None"
  then show "case exec (GlobalParams_run env) f c of
         (c', out) \<Rightarrow>
           out = Inl (KeyError ''DBXMLlib'') \<and>
           results_of c' = (params_of c)(''ModelInterface'' \<mapsto> VStr (abspath env mi None))"
    by (simp add: GlobalParams_run_def result_item_def getitem_def results_of_def params_of_def
        set_result_def)
qed

theorem C10_general_results_are_params_witness:
  "results general_component = params general_component \<and>
   results_of general_component ''ModelInterface'' = Some (VStr ''mi.jar'') \<and>
   status general_component = 0 \<and>
   results_of (addparam ''rgnconfig'' (VStr ''rgn32'') general_component) ''rgnconfig'' =
     Some (VStr ''rgn32'') \<and>
   params_of general_component ''ModelInterface'' = Some (VStr ''mi.jar'') \<and>
   params_of general_component ''DBXMLlib'' = Some (VStr ''/opt/dbxml'') \<and>
   with_default (params_of general_component ''inputdir'') ''./input-data'' = Some ''./input-data'' \<and>
   with_default (params_of general_component ''rgnconfig'') ''rgn14'' = Some ''rgn14'' \<and>
   snd (exec (GlobalParams_run demo_env) no_fetch general_component) = Inr 0 \<and>
   results_of (fst (exec (GlobalParams_run demo_env) no_fetch general_component)) =
     [''ModelInterface'' \<mapsto> VStr ''/work/mi.jar'', ''DBXMLlib'' \<mapsto> VStr ''/opt/dbxml'',
      ''inputdir'' \<mapsto> VStr ''/work/./input-data'',
      ''rgnconfig'' \<mapsto> VStr ''/work/./input-data/rgn14''] \<and>
   params_of (global_component [(''DBXMLlib'', ''/opt/dbxml'')]) ''ModelInterface'' = None \<and>
   exec (GlobalParams_run demo_env) no_fetch (global_component [(''DBXMLlib'', ''/opt/dbxml'')]) =
     (global_component [(''DBXMLlib'', ''/opt/dbxml'')], Inl (KeyError ''ModelInterface'')) \<and>
   params_of (global_component [(''ModelInterface'', ''mi.jar'')]) ''DBXMLlib'' = None \<and>
   snd (exec (GlobalParams_run demo_env) no_fetch (global_component [(''ModelInterface'', ''mi.jar'')])) =
     Inl (KeyError ''DBXMLlib'') \<and>
   results_of (fst (exec (GlobalParams_run demo_env) no_fetch
       (global_component [(''ModelInterface'', ''mi.jar'')]))) =
     [''ModelInterface'' \<mapsto> VStr ''/work/mi.jar'']"
proof -
  note t = C10_general_results_are_params [where c = general_component and mi = "''mi.jar''"
      and db = "''/opt/dbxml''" and inputdir = "''./input-data''" and rgnconfig = "''rgn14''"
      and env = demo_env and f = no_fetch and key = "''rgnconfig''" and v = "VStr ''rgn32''"]
  from t [THEN conjunct2, THEN conjunct1, rule_format, OF general_component_facts(1)]
  have 1: "results_of (addparam ''rgnconfig'' (VStr ''rgn32'') general_component) ''rgnconfig'' =
     Some (VStr ''rgn32'')"
    by simp
  have h: "results general_component = params general_component \<and>
    params_of general_component ''ModelInterface'' = Some (VStr ''mi.jar'') \<and>
    params_of general_component ''DBXMLlib'' = Some (VStr ''/opt/dbxml'') \<and>
    with_default (params_of general_component ''inputdir'') ''./input-data'' = Some ''./input-data'' \<and>
    with_default (params_of general_component ''rgnconfig'') ''rgn14'' = Some ''rgn14''"
    by (intro conjI general_component_facts)
  note t3 = t [THEN conjunct2, THEN conjunct2, THEN conjunct1, rule_format, OF h]
  from t3 have "case exec (GlobalParams_run demo_env) no_fetch general_component of
         (c', out) \<Rightarrow>
           out = Inr 0 \<and> results c' = params c' \<and> status c' = status general_component \<and>
           results_of c' = (params_of general_component)
             (''ModelInterface'' \<mapsto> VStr (abspath demo_env ''mi.jar'' None),
              ''DBXMLlib'' \<mapsto> VStr (abspath demo_env ''/opt/dbxml'' None),
              ''inputdir'' \<mapsto> VStr (abspath demo_env ''./input-data'' (Some (getcwd demo_env))),
              ''rgnconfig'' \<mapsto> VStr (abspath demo_env ''rgn14''
                  (Some (abspath demo_env ''./input-data'' (Some (getcwd demo_env))))))" .
  then have 2: "snd (exec (GlobalParams_run demo_env) no_fetch general_component) = Inr 0"
    and 3: "results_of (fst (exec (GlobalParams_run demo_env) no_fetch general_component)) =
     [''ModelInterface'' \<mapsto> VStr ''/work/mi.jar'', ''DBXMLlib'' \<mapsto> VStr ''/opt/dbxml'',
      ''inputdir'' \<mapsto> VStr ''/work/./input-data'',
      ''rgnconfig'' \<mapsto> VStr ''/work/./input-data/rgn14'']"
    by (auto simp: general_component_eq params_of_def demo_env_def demo_abspath_def split: prod.splits)
  note u = C10_general_results_are_params [where c = "global_component [(''DBXMLlib'', ''/opt/dbxml'')]"
      and env = demo_env and f = no_fetch]
  have hu: "results (global_component [(''DBXMLlib'', ''/opt/dbxml'')]) =
       params (global_component [(''DBXMLlib'', ''/opt/dbxml'')]) \<and>
     params_of (global_component [(''DBXMLlib'', ''/opt/dbxml'')]) ''ModelInterface'' = None"
    by (intro conjI global_component_facts)
  note 4 = u [THEN conjunct2, THEN conjunct2, THEN conjunct2, THEN conjunct1, rule_format, OF hu]
  note v = C10_general_results_are_params [where c = "global_component [(''ModelInterface'', ''mi.jar'')]"
      and env = demo_env and f = no_fetch and mi = "''mi.jar''"]
  have hv: "results (global_component [(''ModelInterface'', ''mi.jar'')]) =
       params (global_component [(''ModelInterface'', ''mi.jar'')]) \<and>
     params_of (global_component [(''ModelInterface'', ''mi.jar'')]) ''ModelInterface'' =
       Some (VStr ''mi.jar'') \<and>
     params_of (global_component [(''ModelInterface'', ''mi.jar'')]) ''DBXMLlib'' = None"
    by (intro conjI global_component_facts)
  from v [THEN conjunct2, THEN conjunct2, THEN conjunct2, THEN conjunct2, rule_format, OF hv]
  have 5: "snd (exec (GlobalParams_run demo_env) no_fetch (global_component [(''ModelInterface'', ''mi.jar'')])) =
     Inl (KeyError ''DBXMLlib'')"
    and 6: "results_of (fst (exec (GlobalParams_run demo_env) no_fetch
       (global_component [(''ModelInterface'', ''mi.jar'')]))) =
     [''ModelInterface'' \<mapsto> VStr ''/work/mi.jar'']"
    by (auto simp: global_component_def parse_defs demo_env_def demo_abspath_def split: prod.splits)
  from 1 2 3 4 5 6 general_component_facts global_component_facts show ?thesis by simp
qed

end
